theory Spec2Isabelle
  imports Complex_Main
begin

section \<open>The hierarchy propagator of hier2hier\<close>

text \<open>
  This theory embeds \<^verbatim>\<open>HierarchyPropagator.forward\<close> of
  \<^verbatim>\<open>hier2hier/models/hierarchyPropagator.py\<close>.

  A two-dimensional tensor is the list of its rows, a row the list of its entries. The
  entries are floating-point numbers in the source; here they are of an arbitrary type with
  a zero, an addition and a division about which nothing is assumed, so that no theorem
  rests on exact arithmetic.

  The layers the module owns (\<^verbatim>\<open>nn.Dropout\<close>, \<^verbatim>\<open>nn.BatchNorm1d\<close>,
  \<^verbatim>\<open>nn.Linear\<close>, \<^verbatim>\<open>nn.GRUCell\<close>) belong to the tensor library, not to
  the repository: they are fields of the record below. A linear layer and a recurrent cell
  act on every row of a batch on its own, so they are functions on rows. Dropout draws from
  the random generator and batch normalisation reads and updates its running statistics,
  so both take and return the hidden state \<open>'s\<close> of the library.
\<close>

subsection \<open>Data\<close>

type_synonym 'a tensor = "'a list list"

datatype error = TypeError | IndexError | AssertionError | RuntimeError

record ('a, 's) propagator =
  propagated_info_len :: nat
  node_info_propagator_stack_depth :: int
  disable_batch_norm :: bool
  input_dropout :: "'s \<Rightarrow> 'a tensor \<Rightarrow> 'a tensor \<times> 's"
  batchNormPropagatedInfo :: "'s \<Rightarrow> 'a tensor \<Rightarrow> 'a tensor \<times> 's"
  transformParentInfo :: "'a list \<Rightarrow> 'a list"
  overlayParentInfo :: "'a list \<Rightarrow> 'a list \<Rightarrow> 'a list"
  transformChildrenInfo :: "'a list \<Rightarrow> 'a list"
  overlayChildrenInfo :: "'a list \<Rightarrow> 'a list \<Rightarrow> 'a list"
  dropout :: "'s \<Rightarrow> 'a tensor \<Rightarrow> 'a tensor \<times> 's"

subsection \<open>Tensor operations used by forward\<close>

text \<open>
  \<^verbatim>\<open>t[sel, ...]\<close>: gathering rows by an integer index tensor. An index \<open>i\<close> with
  \<open>-n \<le> i < n\<close> is accepted, a negative one counting from the end; any other index raises
  \<^verbatim>\<open>IndexError\<close>.
\<close>

definition in_range :: "nat \<Rightarrow> int list \<Rightarrow> bool" where
  "in_range n sel = list_all (\<lambda>i. - int n \<le> i \<and> i < int n) sel"

definition index_select :: "'a tensor \<Rightarrow> int list \<Rightarrow> error + 'a tensor" where
  "index_select t sel =
     (if in_range (length t) sel
      then Inr (map (\<lambda>i. t ! nat (if i < 0 then int (length t) + i else i)) sel)
      else Inl IndexError)"

text \<open>
  A recurrent cell \<^verbatim>\<open>cell(input, hx)\<close> raises \<^verbatim>\<open>RuntimeError\<close> when the batch
  sizes of its two arguments differ, and otherwise maps each pair of rows.
\<close>

definition gru_cell ::
  "('a list \<Rightarrow> 'a list \<Rightarrow> 'a list) \<Rightarrow> 'a tensor \<Rightarrow> 'a tensor \<Rightarrow> error + 'a tensor" where
  "gru_cell cell inp hx =
     (if length inp \<noteq> length hx then Inl RuntimeError else Inr (map2 cell inp hx))"

text \<open>\<^verbatim>\<open>nn.ZeroPad2d((0, 0, 0, deficit))\<close>: \<open>deficit\<close> rows of zeros below the last row.\<close>

definition zero_pad_rows :: "nat \<Rightarrow> ('a::zero) tensor \<Rightarrow> 'a tensor" where
  "zero_pad_rows deficit t = t @ replicate deficit (replicate (length (hd t)) 0)"

text \<open>The sum of two tensors of one shape.\<close>

definition tensor_add :: "('a::plus) tensor \<Rightarrow> 'a tensor \<Rightarrow> 'a tensor" where
  "tensor_add a b = map2 (map2 (+)) a b"

text \<open>
  \<^verbatim>\<open>info / factor.unsqueeze(-1)\<close>: the quotient of an \<open>L \<times> W\<close> tensor by an
  \<open>M \<times> 1\<close> tensor under the broadcasting rule. With \<open>L = M\<close> row \<open>i\<close> is divided by
  entry \<open>i\<close>; a single factor divides every row; a single row is divided by every factor,
  which gives \<open>M\<close> rows; any other pair of lengths raises \<^verbatim>\<open>RuntimeError\<close>.
\<close>

definition div_fanout :: "('a::inverse) tensor \<Rightarrow> 'a list \<Rightarrow> error + 'a tensor" where
  "div_fanout info factor =
     (if length info = length factor
        then Inr (map2 (\<lambda>row d. map (\<lambda>v. v / d) row) info factor)
      else if length factor = 1
        then Inr (map (\<lambda>row. map (\<lambda>v. v / hd factor) row) info)
      else if length info = 1
        then Inr (map (\<lambda>d. map (\<lambda>v. v / d) (hd info)) factor)
      else Inl RuntimeError)"

subsection \<open>The body of forward\<close>

text \<open>
  The inner loop over \<^verbatim>\<open>childSelectorByNdfoList\<close> (lines 134 to 150). The last
  argument is \<^verbatim>\<open>propagatedChildrenInfoByNdfo\<close>, which starts empty. An accumulator
  without rows is replaced by the current tensor; otherwise the assertion demands that
  the current tensor has at least as many rows as the accumulator, the accumulator is
  padded to the current length, and the two are added.
\<close>

fun accumulate_children ::
  "('a list \<Rightarrow> 'a list) \<Rightarrow> 'a tensor \<Rightarrow> int list list \<Rightarrow> ('a::{zero,plus}) tensor
     \<Rightarrow> error + 'a tensor" where
  "accumulate_children tr x [] acc = Inr acc"
| "accumulate_children tr x (sel # sels) acc =
     (case index_select x sel of
        Inl e \<Rightarrow> Inl e
      | Inr gathered \<Rightarrow>
          (let cur = map tr gathered in
           if length acc = 0 then accumulate_children tr x sels cur
           else if \<not> length cur \<ge> length acc then Inl AssertionError
           else accumulate_children tr x sels
                  (tensor_add
                     (if length cur > length acc
                      then zero_pad_rows (length cur - length acc) acc else acc)
                     cur)))"

text \<open>
  One pass of the outer loop (lines 126 to 183), from the node tensor and the library
  state to the new node tensor and state.
\<close>

definition propagate_round ::
  "('a::{zero,plus,inverse}, 's) propagator \<Rightarrow> 's \<Rightarrow> 'a tensor \<Rightarrow> int list \<Rightarrow> int list list
     \<Rightarrow> 'a list \<Rightarrow> error + ('a tensor \<times> 's)" where
  "propagate_round m s x parentSel childSels fanouts =
     (case index_select x parentSel of
        Inl e \<Rightarrow> Inl e
      | Inr parentRows \<Rightarrow>
     (let parentInfo = map (transformParentInfo m) parentRows in
      case accumulate_children (transformChildrenInfo m) x childSels [] of
        Inl e \<Rightarrow> Inl e
      | Inr childrenInfo \<Rightarrow>
     (case gru_cell (overlayParentInfo m) parentInfo x of
        Inl e \<Rightarrow> Inl e
      | Inr merged \<Rightarrow>
     (case (if length childrenInfo \<noteq> 0 then div_fanout childrenInfo fanouts
            else Inr childrenInfo) of
        Inl e \<Rightarrow> Inl e
      | Inr normalised \<Rightarrow>
     (let deficitStart = length normalised;
          finalDeficit = int (length merged) - int deficitStart;
          headRows = take deficitStart merged
      in case (if length normalised \<noteq> 0
               then gru_cell (overlayChildrenInfo m) normalised headRows
               else Inr headRows) of
        Inl e \<Rightarrow> Inl e
      | Inr updated \<Rightarrow>
          Inr (dropout m s
                 (if finalDeficit \<noteq> 0 then updated @ drop deficitStart merged
                  else updated)))))))"

text \<open>\<^verbatim>\<open>for i in range(self.node_info_propagator_stack_depth)\<close>, stopped by the first error.\<close>

fun propagation_loop ::
  "('a::{zero,plus,inverse}, 's) propagator \<Rightarrow> nat \<Rightarrow> 's \<Rightarrow> 'a tensor \<Rightarrow> int list
     \<Rightarrow> int list list \<Rightarrow> 'a list \<Rightarrow> error + ('a tensor \<times> 's)" where
  "propagation_loop m 0 s x parentSel childSels fanouts = Inr (x, s)"
| "propagation_loop m (Suc k) s x parentSel childSels fanouts =
     (case propagate_round m s x parentSel childSels fanouts of
        Inl e \<Rightarrow> Inl e
      | Inr (x', s') \<Rightarrow> propagation_loop m k s' x' parentSel childSels fanouts)"

text \<open>
  The steps before the loop (lines 115 to 119): input dropout, then batch normalisation
  unless it is disabled or the tensor has at most one row.
\<close>

definition prepare_input ::
  "('a, 's) propagator \<Rightarrow> 's \<Rightarrow> 'a tensor \<Rightarrow> 'a tensor \<times> 's" where
  "prepare_input m s x =
     (case input_dropout m s x of
        (x1, s1) \<Rightarrow>
          if \<not> disable_batch_norm m \<and> length x1 > 1
          then batchNormPropagatedInfo m s1 x1 else (x1, s1))"

text \<open>
  \<^verbatim>\<open>forward\<close>. The debug hook is optional in the signature and is called on entry,
  so the default \<^verbatim>\<open>None\<close> raises \<^verbatim>\<open>TypeError\<close> at line 112. The tensor-board
  hook is a parameter that the body never uses. A range over a negative depth is empty.
\<close>

definition forward ::
  "('a::{zero,plus,inverse}, 's) propagator \<Rightarrow> 's \<Rightarrow> 'a tensor \<Rightarrow> int list \<Rightarrow> int list list
     \<Rightarrow> 'a list \<Rightarrow> 'h \<Rightarrow> ('a tensor \<Rightarrow> string \<Rightarrow> unit) option \<Rightarrow> error + ('a tensor \<times> 's)" where
  "forward m s propagatedNodeInfoByNdfo parentSelectorByNdfo childSelectorByNdfoList
     decreasingFanoutsFactor tensorBoardHook dataDebugHook =
     (case dataDebugHook of
        None \<Rightarrow> Inl TypeError
      | Some hook \<Rightarrow>
          (let u = hook propagatedNodeInfoByNdfo ''ndfo'' in
           case prepare_input m s propagatedNodeInfoByNdfo of
             (x2, s2) \<Rightarrow>
               (let u' = hook x2 ''ndfo'' in
                propagation_loop m (nat (node_info_propagator_stack_depth m)) s2 x2
                  parentSelectorByNdfo childSelectorByNdfoList decreasingFanoutsFactor)))"

subsection \<open>Shapes and the inputs a round accepts\<close>

text \<open>A tensor has shape \<open>n \<times> w\<close> when it has \<open>n\<close> rows, each of \<open>w\<close> entries.\<close>

definition has_shape :: "'a tensor \<Rightarrow> nat \<Rightarrow> nat \<Rightarrow> bool" where
  "has_shape t n w \<longleftrightarrow> length t = n \<and> list_all (\<lambda>row. length row = w) t"

text \<open>
  What is assumed of the library: dropout and batch normalisation return a tensor of the
  shape they are given, and the layers built with
  \<^verbatim>\<open>(propagated_info_len, propagated_info_len)\<close> map rows of that width to rows of that
  width.
\<close>

definition keeps_shape :: "('s \<Rightarrow> 'a tensor \<Rightarrow> 'a tensor \<times> 's) \<Rightarrow> nat \<Rightarrow> bool" where
  "keeps_shape layer w \<longleftrightarrow>
     (\<forall>s t. list_all (\<lambda>row. length row = w) t \<longrightarrow> has_shape (fst (layer s t)) (length t) w)"

definition layers_keep_shape :: "('a, 's) propagator \<Rightarrow> bool" where
  "layers_keep_shape m \<longleftrightarrow>
     keeps_shape (input_dropout m) (propagated_info_len m) \<and>
     keeps_shape (batchNormPropagatedInfo m) (propagated_info_len m) \<and>
     keeps_shape (dropout m) (propagated_info_len m) \<and>
     (\<forall>row. length row = propagated_info_len m \<longrightarrow>
        length (transformParentInfo m row) = propagated_info_len m \<and>
        length (transformChildrenInfo m row) = propagated_info_len m) \<and>
     (\<forall>inp hx. length inp = propagated_info_len m \<longrightarrow> length hx = propagated_info_len m \<longrightarrow>
        length (overlayParentInfo m inp hx) = propagated_info_len m \<and>
        length (overlayChildrenInfo m inp hx) = propagated_info_len m)"

text \<open>
  The node tensor after the parent step (lines 127, 131 and 153): the parent cell applied
  to the transformed parent row and the node's own row, for every row.
\<close>

definition merged_rows :: "('a, 's) propagator \<Rightarrow> 'a tensor \<Rightarrow> 'a tensor \<Rightarrow> 'a tensor" where
  "merged_rows m parentRows x =
     map2 (overlayParentInfo m) (map (transformParentInfo m) parentRows) x"

text \<open>
  The number of rows of the accumulated children info once the inner loop has gone through
  the whole selector list, and the number of rows after the division by \<open>k\<close> fanout
  factors.
\<close>

definition children_rows :: "int list list \<Rightarrow> nat" where
  "children_rows sels = (if sels = [] then 0 else length (last sels))"

definition normalised_rows :: "nat \<Rightarrow> nat \<Rightarrow> nat" where
  "normalised_rows l k = (if l = 0 then 0 else if l = k \<or> k = 1 then l else k)"

text \<open>
  The selectors and the number \<open>k\<close> of fanout factors that one round accepts for a node
  tensor of \<open>n\<close> rows: every index in range, one parent index per node, selector lengths
  that do not decrease along the list, and a fanout vector that broadcasts against the
  accumulated rows to at most \<open>n\<close> rows.
\<close>

definition round_accepts :: "nat \<Rightarrow> int list \<Rightarrow> int list list \<Rightarrow> nat \<Rightarrow> bool" where
  "round_accepts n parentSel childSels k \<longleftrightarrow>
     in_range n parentSel \<and> length parentSel = n \<and>
     list_all (in_range n) childSels \<and> sorted (map length childSels) \<and>
     (children_rows childSels = 0 \<or>
      (children_rows childSels = k \<or> k = 1 \<or> children_rows childSels = 1) \<and>
       normalised_rows (children_rows childSels) k \<le> n)"

subsection \<open>A small batch\<close>

text \<open>
  One tree of four nodes in the order of decreasing fanout: the root with two children,
  its first child with one child, and two leaves. The selector of the second children
  comes first in the list, the selector of the first children last, as the inner loop
  needs it. The layers are simple functions on rows of width one; dropout leaves its
  input as it is and counts its calls in the state.
\<close>

definition small_layers :: "(real, nat) propagator" where
  "small_layers =
     \<lparr> propagated_info_len = 1,
       node_info_propagator_stack_depth = 2,
       disable_batch_norm = True,
       input_dropout = (\<lambda>s t. (t, Suc s)),
       batchNormPropagatedInfo = (\<lambda>s t. (map (map (\<lambda>v. v - 2)) t, Suc s)),
       transformParentInfo = map (\<lambda>v. 2 * v),
       overlayParentInfo = (\<lambda>inp hx. map2 (+) inp hx),
       transformChildrenInfo = map (\<lambda>v. v + 1),
       overlayChildrenInfo = (\<lambda>inp hx. map2 (\<lambda>a b. b - a) inp hx),
       dropout = (\<lambda>s t. (t, Suc s)) \<rparr>"

definition small_nodes :: "real tensor" where
  "small_nodes = [[1], [2], [3], [4]]"

definition small_parents :: "int list" where
  "small_parents = [0, 0, 0, 1]"

definition small_children :: "int list list" where
  "small_children = [[2], [1, 3]]"

definition small_fanouts :: "real list" where
  "small_fanouts = [2, 1]"

definition no_hook :: "real tensor \<Rightarrow> string \<Rightarrow> unit" where
  "no_hook t label = ()"

text \<open>
  The child selectors of the same tree in the order of the child rank: the selector of the
  first children, which is the longest, comes first.
\<close>

definition spec_order_children :: "int list list" where
  "spec_order_children = [[1, 3], [2]]"

subsection \<open>Dropout switched off, and further inputs\<close>

text \<open>
  Dropout with probability zero returns its input. Both dropout layers of the module are
  switched off when each of them returns the tensor it is given, whatever the state of the
  random generator is.
\<close>

definition dropout_disabled :: "('a, 's) propagator \<Rightarrow> bool" where
  "dropout_disabled m \<longleftrightarrow>
     (\<forall>s t. fst (input_dropout m s t) = t) \<and> (\<forall>s t. fst (dropout m s t) = t)"

text \<open>The same layers with batch normalisation switched on and no round to run.\<close>

definition norm_layers :: "(real, nat) propagator" where
  "norm_layers =
     small_layers \<lparr> node_info_propagator_stack_depth := 0, disable_batch_norm := False \<rparr>"

text \<open>
  What the single-node property of the specification describes: rounds in which only the
  parent step is applied, the parent of the only node being the node itself, followed by
  the output dropout of the round.
\<close>

fun self_loop_rounds ::
  "('a, 's) propagator \<Rightarrow> nat \<Rightarrow> 's \<Rightarrow> 'a tensor \<Rightarrow> 'a tensor \<times> 's" where
  "self_loop_rounds m 0 s x = (x, s)"
| "self_loop_rounds m (Suc k) s x =
     (case dropout m s (merged_rows m x x) of (x', s') \<Rightarrow> self_loop_rounds m k s' x')"

text \<open>A batch of one tree with one node.\<close>

definition single_node :: "real tensor" where
  "single_node = [[5]]"

subsection \<open>Child counts, and two more trees\<close>

text \<open>
  The number of children of the node at position \<open>i\<close>, read off the selectors: a
  selector holds one entry for every node that has a child of its rank, the nodes being
  in the order of decreasing fanout.
\<close>

definition child_count :: "int list list \<Rightarrow> nat \<Rightarrow> nat" where
  "child_count sels i = length (filter (\<lambda>sel. i < length sel) sels)"

text \<open>
  A root with one child, with one fanout factor per node (the child counts 1 and 0).
\<close>

definition pair_nodes :: "real tensor" where
  "pair_nodes = [[1], [2]]"

definition pair_parents :: "int list" where
  "pair_parents = [0, 0]"

definition pair_children :: "int list list" where
  "pair_children = [[1]]"

definition pair_fanouts :: "real list" where
  "pair_fanouts = [1, 0]"

text \<open>Layers whose children cell marks every row it is applied to.\<close>

definition marking_layers :: "(real, nat) propagator" where
  "marking_layers = small_layers \<lparr> overlayChildrenInfo := (\<lambda>inp hx. map (\<lambda>v. 42) hx) \<rparr>"

text \<open>
  A chain of three nodes, with one fanout factor per node (the child counts 1, 1 and 0).
\<close>

definition chain_nodes :: "real tensor" where
  "chain_nodes = [[1], [2], [3]]"

definition chain_parents :: "int list" where
  "chain_parents = [0, 0, 1]"

definition chain_children :: "int list list" where
  "chain_children = [[1, 2]]"

definition chain_fanouts :: "real list" where
  "chain_fanouts = [1, 1, 0]"

subsection \<open>Well-formed batches\<close>

text \<open>
  A well-formed batch for a node tensor of \<open>n\<close> rows and \<open>k\<close> fanout factors: every
  index in range, one parent index per node, child-selector lengths that do not decrease
  along the list and do not exceed \<open>n\<close>, and one fanout factor per accumulated row, that
  is, per node with at least one child.
\<close>

definition well_formed_batch :: "nat \<Rightarrow> int list \<Rightarrow> int list list \<Rightarrow> nat \<Rightarrow> bool" where
  "well_formed_batch n parentSel childSels k \<longleftrightarrow>
     in_range n parentSel \<and> length parentSel = n \<and>
     list_all (in_range n) childSels \<and> sorted (map length childSels) \<and>
     children_rows childSels \<le> n \<and> k = children_rows childSels"

text \<open>The child counts of all four nodes of the small batch, one factor per node.\<close>

definition small_per_node_fanouts :: "real list" where
  "small_per_node_fanouts = [2, 1, 0, 0]"

subsection \<open>Inputs that do not fit\<close>





subsection \<open>Recording the calls of the stateful layers\<close>

text \<open>
  To count the calls of the three stateful layers, the state of the library is paired
  with the list of the calls made so far, and each of these layers appends its name to the
  list when it is called; \<open>logged m\<close> behaves as \<open>m\<close> otherwise.
\<close>

datatype layer_call = InputDropoutCall | BatchNormCall | OutputDropoutCall

definition logged :: "('a, 's) propagator \<Rightarrow> ('a, 's \<times> layer_call list) propagator" where
  "logged m =
     \<lparr> propagated_info_len = propagated_info_len m,
       node_info_propagator_stack_depth = node_info_propagator_stack_depth m,
       disable_batch_norm = disable_batch_norm m,
       input_dropout = (\<lambda>(s, calls) t.
          case input_dropout m s t of (y, s') \<Rightarrow> (y, (s', calls @ [InputDropoutCall]))),
       batchNormPropagatedInfo = (\<lambda>(s, calls) t.
          case batchNormPropagatedInfo m s t of (y, s') \<Rightarrow> (y, (s', calls @ [BatchNormCall]))),
       transformParentInfo = transformParentInfo m,
       overlayParentInfo = overlayParentInfo m,
       transformChildrenInfo = transformChildrenInfo m,
       overlayChildrenInfo = overlayChildrenInfo m,
       dropout = (\<lambda>(s, calls) t.
          case dropout m s t of (y, s') \<Rightarrow> (y, (s', calls @ [OutputDropoutCall]))) \<rparr>"

text \<open>
  The calls of one pass over an input of the given number of rows: one input dropout, one
  batch normalisation when it is not disabled and there is more than one row, and one
  output dropout per round.
\<close>

definition calls_of_forward :: "('a, 's) propagator \<Rightarrow> nat \<Rightarrow> layer_call list" where
  "calls_of_forward m rows =
     InputDropoutCall #
     (if \<not> disable_batch_norm m \<and> 1 < rows then [BatchNormCall] else []) @
     replicate (nat (node_info_propagator_stack_depth m)) OutputDropoutCall"

text \<open>The layers of the small batch with batch normalisation switched on.\<close>

definition normalising_layers :: "(real, nat) propagator" where
  "normalising_layers = small_layers \<lparr> disable_batch_norm := False \<rparr>"

section \<open>Properties\<close>

subsection \<open>Gathering, padding and adding\<close>

lemma index_select_Inr:
  "index_select t sel = Inr g \<longleftrightarrow>
     in_range (length t) sel \<and> g = map (\<lambda>i. t ! nat (if i < 0 then int (length t) + i else i)) sel"
  by (auto simp: index_select_def)

lemma index_select_Inl:
  "index_select t sel = Inl e \<longleftrightarrow> \<not> in_range (length t) sel \<and> e = IndexError"
  by (auto simp: index_select_def)

lemma index_select_length: "index_select t sel = Inr g \<Longrightarrow> length g = length sel"
  by (auto simp: index_select_Inr)

lemma index_select_rows:
  assumes "index_select t sel = Inr g" shows "set g \<subseteq> set t"
proof -
  have "\<And>i. i \<in> set sel \<Longrightarrow> nat (if i < 0 then int (length t) + i else i) < length t"
    using assms by (auto simp: index_select_Inr in_range_def list_all_iff)
  then show ?thesis using assms by (auto simp: index_select_Inr)
qed

lemma index_select_width:
  "index_select t sel = Inr g \<Longrightarrow> list_all (\<lambda>r. length r = w) t \<Longrightarrow> list_all (\<lambda>r. length r = w) g"
  using index_select_rows[of t sel g] by (auto simp: list_all_iff)

lemma tensor_add_length: "length (tensor_add a b) = min (length a) (length b)"
  by (simp add: tensor_add_def)

lemma tensor_add_width:
  "list_all (\<lambda>r. length r = w) a \<Longrightarrow> list_all (\<lambda>r. length r = w) b \<Longrightarrow>
   list_all (\<lambda>r. length r = w) (tensor_add a b)"
proof -
  assume a: "list_all (\<lambda>r. length r = w) a" and b: "list_all (\<lambda>r. length r = w) b"
  have "\<And>p q. (p, q) \<in> set (zip a b) \<Longrightarrow> length (map2 (+) p q) = w"
  proof -
    fix p q assume "(p, q) \<in> set (zip a b)"
    then have "p \<in> set a" "q \<in> set b" by (auto dest: set_zip_leftD set_zip_rightD)
    then show "length (map2 (+) p q) = w" using a b by (simp add: list_all_iff)
  qed
  then show ?thesis by (auto simp: tensor_add_def list_all_iff)
qed

lemma zero_pad_rows_length: "length (zero_pad_rows d t) = length t + d"
  by (simp add: zero_pad_rows_def)

lemma zero_pad_rows_width:
  "t \<noteq> [] \<Longrightarrow> list_all (\<lambda>r. length r = w) t \<Longrightarrow> list_all (\<lambda>r. length r = w) (zero_pad_rows d t)"
  by (cases t) (auto simp: zero_pad_rows_def list_all_iff)

lemma accumulate_children_length:
  "accumulate_children tr x sels acc = Inr r \<Longrightarrow>
   length r = (if sels = [] then length acc else length (last sels))"
proof (induction sels arbitrary: acc)
  case Nil then show ?case by simp
next
  case (Cons sel sels)
  from Cons.prems obtain g where g: "index_select x sel = Inr g"
    by (auto split: sum.splits)
  have lg: "length (map tr g) = length sel" using index_select_length[OF g] by simp
  show ?case
  proof (cases "length acc = 0")
    case True
    with Cons.prems g have run: "accumulate_children tr x sels (map tr g) = Inr r" by simp
    show ?thesis using Cons.IH[OF run] lg by (simp split: if_splits)
  next
    case False
    let ?a = "tensor_add (if length (map tr g) > length acc
                      then zero_pad_rows (length (map tr g) - length acc) acc else acc) (map tr g)"
    from False Cons.prems g have ge: "length acc \<le> length (map tr g)"
      and run: "accumulate_children tr x sels ?a = Inr r"
      by (auto simp: Let_def split: if_splits)
    have "length ?a = length sel" using ge lg
      by (simp add: tensor_add_length zero_pad_rows_length)
    then show ?thesis using Cons.IH[OF run] by (simp split: if_splits)
  qed
qed

lemma accumulate_children_width:
  assumes "accumulate_children tr x sels acc = Inr r"
    and "list_all (\<lambda>r. length r = w) x"
    and "\<And>row. length row = w \<Longrightarrow> length (tr row) = w"
    and "list_all (\<lambda>r. length r = w) acc"
  shows "list_all (\<lambda>r. length r = w) r"
  using assms(1,4)
proof (induction sels arbitrary: acc)
  case Nil then show ?case by simp
next
  case (Cons sel sels)
  from Cons.prems(1) obtain g where g: "index_select x sel = Inr g"
    by (auto split: sum.splits)
  have gw: "list_all (\<lambda>r. length r = w) (map tr g)"
    using index_select_width[OF g assms(2)] assms(3) by (simp add: list_all_iff)
  show ?case
  proof (cases "length acc = 0")
    case True
    with Cons.prems(1) g have "accumulate_children tr x sels (map tr g) = Inr r" by simp
    then show ?thesis using Cons.IH gw by blast
  next
    case False
    let ?p = "if length (map tr g) > length acc
                      then zero_pad_rows (length (map tr g) - length acc) acc else acc"
    from False Cons.prems(1) g have run: "accumulate_children tr x sels (tensor_add ?p (map tr g)) = Inr r"
      by (auto simp: Let_def split: if_splits)
    have "acc \<noteq> []" using False by simp
    then have "list_all (\<lambda>r. length r = w) ?p"
      using Cons.prems(2) by (simp add: zero_pad_rows_width)
    then have "list_all (\<lambda>r. length r = w) (tensor_add ?p (map tr g))"
      using gw by (rule tensor_add_width)
    then show ?thesis using Cons.IH run by blast
  qed
qed

lemma accumulate_children_ok_iff:
  "(\<exists>r. accumulate_children tr x sels acc = Inr r) \<longleftrightarrow>
     list_all (in_range (length x)) sels \<and> sorted (length acc # map length sels)"
proof (induction sels arbitrary: acc)
  case Nil then show ?case by simp
next
  case (Cons sel sels)
  show ?case
  proof (cases "in_range (length x) sel")
    case False
    then show ?thesis by (simp add: index_select_def)
  next
    case True
    define g where "g = map (\<lambda>i. x ! nat (if i < 0 then int (length x) + i else i)) sel"
    have g: "index_select x sel = Inr g" using True by (simp add: index_select_def g_def)
    have lg: "length (map tr g) = length sel" by (simp add: g_def)
    show ?thesis
    proof (cases "length acc = 0")
      case z: True
      have "(\<exists>r. accumulate_children tr x (sel # sels) acc = Inr r)
            \<longleftrightarrow> (\<exists>r. accumulate_children tr x sels (map tr g) = Inr r)"
        using g z by simp
      also have "\<dots> \<longleftrightarrow> list_all (in_range (length x)) sels \<and> sorted (length sel # map length sels)"
        using Cons.IH[of "map tr g"] lg by simp
      finally show ?thesis using True z by (simp del: accumulate_children.simps)
    next
      case nz: False
      show ?thesis
      proof (cases "length acc \<le> length sel")
        case le: True
        let ?a = "tensor_add (if length (map tr g) > length acc
                      then zero_pad_rows (length (map tr g) - length acc) acc else acc) (map tr g)"
        have la: "length ?a = length sel" using le lg
          by (simp add: tensor_add_length zero_pad_rows_length)
        have "(\<exists>r. accumulate_children tr x (sel # sels) acc = Inr r)
            \<longleftrightarrow> (\<exists>r. accumulate_children tr x sels ?a = Inr r)"
          using g nz le lg by (simp add: Let_def)
        also have "\<dots> \<longleftrightarrow> list_all (in_range (length x)) sels \<and> sorted (length sel # map length sels)"
          using Cons.IH[of ?a] la by simp
        finally show ?thesis using True le
          by (auto simp del: accumulate_children.simps intro: order_trans[of "length acc" "length sel"])
      next
        case gt: False
        have "accumulate_children tr x (sel # sels) acc = Inl AssertionError"
          using g nz gt lg by (simp add: Let_def)
        then show ?thesis using gt by simp
      qed
    qed
  qed
qed

lemma accumulate_children_error:
  "accumulate_children tr x sels acc = Inl e \<Longrightarrow> e = IndexError \<or> e = AssertionError"
proof (induction sels arbitrary: acc)
  case Nil then show ?case by simp
next
  case (Cons sel sels)
  then show ?case
    by (auto simp: Let_def index_select_Inl split: sum.splits if_splits)
qed

subsection \<open>One round\<close>

lemma gru_cell_Inr: "gru_cell c i h = Inr r \<longleftrightarrow> length i = length h \<and> r = map2 c i h"
  by (auto simp: gru_cell_def)

lemma propagate_round_Inr:
  assumes "propagate_round m s x psel csels ff = Inr out"
  obtains pg acc nrm where
    "index_select x psel = Inr pg" "length psel = length x"
    "accumulate_children (transformChildrenInfo m) x csels [] = Inr acc"
    "(if length acc \<noteq> 0 then div_fanout acc ff else Inr acc) = Inr nrm"
    "length nrm \<le> length x"
    "out = dropout m s
             (map2 (overlayChildrenInfo m) nrm (take (length nrm) (merged_rows m pg x))
              @ drop (length nrm) (merged_rows m pg x))"
proof -
  from assms obtain pg where pg: "index_select x psel = Inr pg"
    by (auto simp: propagate_round_def split: sum.splits)
  from assms pg obtain acc where
    acc: "accumulate_children (transformChildrenInfo m) x csels [] = Inr acc"
    by (auto simp: propagate_round_def Let_def split: sum.splits)
  from assms pg acc obtain mg where
    mg: "gru_cell (overlayParentInfo m) (map (transformParentInfo m) pg) x = Inr mg"
    by (auto simp: propagate_round_def Let_def split: sum.splits)
  from assms pg acc mg obtain nrm where
    nrm: "(if length acc \<noteq> 0 then div_fanout acc ff else Inr acc) = Inr nrm"
    by (simp add: propagate_round_def Let_def split: sum.splits)
  from assms pg acc mg nrm obtain upd where
    upd: "(if length nrm \<noteq> 0 then gru_cell (overlayChildrenInfo m) nrm (take (length nrm) mg)
           else Inr (take (length nrm) mg)) = Inr upd"
    and out: "out = dropout m s (if int (length mg) - int (length nrm) \<noteq> 0
                                 then upd @ drop (length nrm) mg else upd)"
    by (simp add: propagate_round_def Let_def split: sum.splits)
  have lp: "length psel = length x" and mge: "mg = merged_rows m pg x"
    using mg index_select_length[OF pg] by (auto simp: gru_cell_Inr merged_rows_def)
  have lmg: "length mg = length x" using mge lp index_select_length[OF pg]
    by (simp add: merged_rows_def)
  have le: "length nrm \<le> length x" and u: "upd = map2 (overlayChildrenInfo m) nrm (take (length nrm) mg)"
    using upd lmg by (auto simp: gru_cell_Inr split: if_splits)
  have "(if int (length mg) - int (length nrm) \<noteq> 0 then upd @ drop (length nrm) mg else upd)
        = upd @ drop (length nrm) mg"
    by simp
  with out u mge have "out = dropout m s
             (map2 (overlayChildrenInfo m) nrm (take (length nrm) (merged_rows m pg x))
              @ drop (length nrm) (merged_rows m pg x))" by simp
  with that pg lp acc nrm le show thesis by blast
qed

lemma div_fanout_ok_iff:
  "(\<exists>r. div_fanout info ff = Inr r) \<longleftrightarrow>
     length info = length ff \<or> length ff = 1 \<or> length info = 1"
  by (simp add: div_fanout_def)

lemma div_fanout_length:
  "div_fanout info ff = Inr r \<Longrightarrow>
   length r = (if length info = length ff \<or> length ff = 1 then length info else length ff)"
  by (auto simp: div_fanout_def split: if_splits)

lemma div_fanout_width:
  assumes "div_fanout info ff = Inr r" "list_all (\<lambda>row. length row = w) info"
  shows "list_all (\<lambda>row. length row = w) r"
proof -
  have hd: "length info = 1 \<Longrightarrow> length (hd info) = w"
    using assms(2) by (cases info) auto
  have z: "\<And>p q. (p, q) \<in> set (zip info ff) \<Longrightarrow> length p = w"
    using assms(2) by (auto simp: list_all_iff dest: set_zip_leftD)
  show ?thesis using assms hd z
    by (auto simp: div_fanout_def list_all_iff split: if_splits)
qed

lemma accumulate_children_rows:
  "accumulate_children tr x sels [] = Inr r \<Longrightarrow> length r = children_rows sels"
  using accumulate_children_length[of tr x sels "[]" r] by (simp add: children_rows_def)

lemma merged_rows_length:
  "length pg = length x \<Longrightarrow> length (merged_rows m pg x) = length x"
  by (simp add: merged_rows_def)

lemma propagate_round_ok_iff:
  "(\<exists>out. propagate_round m s x psel csels ff = Inr out) \<longleftrightarrow>
     round_accepts (length x) psel csels (length ff)"
proof
  assume "\<exists>out. propagate_round m s x psel csels ff = Inr out"
  then obtain out where out: "propagate_round m s x psel csels ff = Inr out" ..
  from out obtain pg acc nrm where
    pg: "index_select x psel = Inr pg" and lp: "length psel = length x" and
    acc: "accumulate_children (transformChildrenInfo m) x csels [] = Inr acc" and
    nrm: "(if length acc \<noteq> 0 then div_fanout acc ff else Inr acc) = Inr nrm" and
    le: "length nrm \<le> length x"
    by (rule propagate_round_Inr)
  have r1: "in_range (length x) psel" using pg by (simp add: index_select_Inr)
  have r2: "list_all (in_range (length x)) csels \<and> sorted (map length csels)"
    using accumulate_children_ok_iff[of "transformChildrenInfo m" x csels "[]"] acc by simp
  have la: "length acc = children_rows csels" using acc by (rule accumulate_children_rows)
  have r3: "children_rows csels = 0 \<or>
      (children_rows csels = length ff \<or> length ff = 1 \<or> children_rows csels = 1) \<and>
       normalised_rows (children_rows csels) (length ff) \<le> length x"
  proof (cases "length acc = 0")
    case True then show ?thesis using la by simp
  next
    case False
    with nrm have d: "div_fanout acc ff = Inr nrm" by simp
    have "length acc = length ff \<or> length ff = 1 \<or> length acc = 1"
      using div_fanout_ok_iff[of acc ff] d by blast
    moreover have "length nrm = normalised_rows (length acc) (length ff)"
      using div_fanout_length[OF d] False by (simp add: normalised_rows_def)
    ultimately show ?thesis using la le by simp
  qed
  show "round_accepts (length x) psel csels (length ff)"
    using r1 r2 r3 lp by (simp add: round_accepts_def)
next
  assume ra: "round_accepts (length x) psel csels (length ff)"
  then have r1: "in_range (length x) psel" and lp: "length psel = length x"
    and r2: "list_all (in_range (length x)) csels" "sorted (map length csels)"
    and r3: "children_rows csels = 0 \<or>
      (children_rows csels = length ff \<or> length ff = 1 \<or> children_rows csels = 1) \<and>
       normalised_rows (children_rows csels) (length ff) \<le> length x"
    by (simp_all add: round_accepts_def)
  obtain pg where pg: "index_select x psel = Inr pg" using r1 by (simp add: index_select_def)
  have lpg: "length pg = length x" using index_select_length[OF pg] lp by simp
  obtain acc where acc: "accumulate_children (transformChildrenInfo m) x csels [] = Inr acc"
    using accumulate_children_ok_iff[of "transformChildrenInfo m" x csels "[]"] r2 by auto
  have la: "length acc = children_rows csels" using acc by (rule accumulate_children_rows)
  obtain mg where mg: "gru_cell (overlayParentInfo m) (map (transformParentInfo m) pg) x = Inr mg"
    and lmg: "length mg = length x"
    using lpg by (simp add: gru_cell_def)
  obtain nrm where nrm: "(if length acc \<noteq> 0 then div_fanout acc ff else Inr acc) = Inr nrm"
    and le: "length nrm \<le> length x"
  proof (cases "length acc = 0")
    case True then show ?thesis using that[of acc] by simp
  next
    case False
    then have c: "length acc = length ff \<or> length ff = 1 \<or> length acc = 1"
      and b: "normalised_rows (length acc) (length ff) \<le> length x"
      using r3 la by auto
    from c obtain nrm where d: "div_fanout acc ff = Inr nrm"
      using div_fanout_ok_iff[of acc ff] by blast
    have "length nrm = normalised_rows (length acc) (length ff)"
      using div_fanout_length[OF d] False by (simp add: normalised_rows_def)
    then show ?thesis using that[of nrm] d b False by simp
  qed
  have "\<exists>upd. (if length nrm \<noteq> 0 then gru_cell (overlayChildrenInfo m) nrm (take (length nrm) mg)
           else Inr (take (length nrm) mg)) = Inr upd"
    using le lmg by (simp add: gru_cell_def)
  then obtain upd where
    upd: "(if length nrm \<noteq> 0 then gru_cell (overlayChildrenInfo m) nrm (take (length nrm) mg)
           else Inr (take (length nrm) mg)) = Inr upd" ..
  show "\<exists>out. propagate_round m s x psel csels ff = Inr out"
    using pg acc mg nrm upd by (simp add: propagate_round_def Let_def)
qed

subsection \<open>Shapes through the loop\<close>

lemma map2_width:
  assumes "\<And>p q. length p = w \<Longrightarrow> length q = w \<Longrightarrow> length (f p q) = w"
    and "list_all (\<lambda>row. length row = w) a" "list_all (\<lambda>row. length row = w) b"
  shows "list_all (\<lambda>row. length row = w) (map2 f a b)"
proof -
  have "\<And>p q. (p, q) \<in> set (zip a b) \<Longrightarrow> length (f p q) = w"
  proof -
    fix p q assume "(p, q) \<in> set (zip a b)"
    then have "p \<in> set a" "q \<in> set b" by (auto dest: set_zip_leftD set_zip_rightD)
    then show "length (f p q) = w" using assms by (simp add: list_all_iff)
  qed
  then show ?thesis by (auto simp: list_all_iff)
qed

lemma list_all_take_drop:
  "list_all P xs \<Longrightarrow> list_all P (take k xs) \<and> list_all P (drop k xs)"
  by (auto simp: list_all_iff dest: in_set_takeD in_set_dropD)

lemma propagate_round_shape:
  assumes lk: "layers_keep_shape m"
    and sh: "has_shape x n (propagated_info_len m)"
    and run: "propagate_round m s x psel csels ff = Inr (y, s')"
  shows "has_shape y n (propagated_info_len m)"
proof -
  let ?w = "propagated_info_len m"
  let ?W = "list_all (\<lambda>row. length row = ?w)"
  from sh have xw: "?W x" and xn: "length x = n" by (simp_all add: has_shape_def)
  from run obtain pg acc nrm where
    pg: "index_select x psel = Inr pg" and lp: "length psel = length x" and
    acc: "accumulate_children (transformChildrenInfo m) x csels [] = Inr acc" and
    nrm: "(if length acc \<noteq> 0 then div_fanout acc ff else Inr acc) = Inr nrm" and
    le: "length nrm \<le> length x" and
    out: "(y, s') = dropout m s
             (map2 (overlayChildrenInfo m) nrm (take (length nrm) (merged_rows m pg x))
              @ drop (length nrm) (merged_rows m pg x))"
    by (rule propagate_round_Inr)
  let ?mr = "merged_rows m pg x"
  let ?z = "map2 (overlayChildrenInfo m) nrm (take (length nrm) ?mr) @ drop (length nrm) ?mr"
  have tP: "\<And>row. length row = ?w \<Longrightarrow> length (transformParentInfo m row) = ?w"
    and tC: "\<And>row. length row = ?w \<Longrightarrow> length (transformChildrenInfo m row) = ?w"
    and oP: "\<And>p q. length p = ?w \<Longrightarrow> length q = ?w \<Longrightarrow> length (overlayParentInfo m p q) = ?w"
    and oC: "\<And>p q. length p = ?w \<Longrightarrow> length q = ?w \<Longrightarrow> length (overlayChildrenInfo m p q) = ?w"
    and dk: "keeps_shape (dropout m) ?w"
    using lk by (simp_all add: layers_keep_shape_def)
  have pgw: "?W pg" using pg xw by (rule index_select_width)
  then have "?W (map (transformParentInfo m) pg)" using tP by (simp add: list_all_iff)
  then have mrw: "?W ?mr" unfolding merged_rows_def using oP xw by (intro map2_width)
  have lmr: "length ?mr = length x"
    using index_select_length[OF pg] lp by (simp add: merged_rows_length)
  have accw: "?W acc" by (rule accumulate_children_width[OF acc xw tC]) simp_all
  have nrmw: "?W nrm"
  proof (cases "length acc = 0")
    case True with nrm accw show ?thesis by simp
  next
    case False with nrm have "div_fanout acc ff = Inr nrm" by simp
    then show ?thesis using accw by (rule div_fanout_width)
  qed
  have "?W (map2 (overlayChildrenInfo m) nrm (take (length nrm) ?mr))"
    using oC nrmw list_all_take_drop[OF mrw] by (intro map2_width) auto
  then have zw: "?W ?z" using list_all_take_drop[OF mrw] by simp
  have zl: "length ?z = n" using le lmr xn by simp
  have "has_shape (fst (dropout m s ?z)) (length ?z) ?w"
    using dk zw unfolding keeps_shape_def by blast
  then show ?thesis using out[symmetric] zl by (simp del: length_append length_map length_take length_drop)
qed

lemma propagation_loop_shape:
  assumes lk: "layers_keep_shape m"
  shows "has_shape x n (propagated_info_len m) \<Longrightarrow>
         propagation_loop m k s x psel csels ff = Inr (y, s') \<Longrightarrow>
         has_shape y n (propagated_info_len m)"
proof (induction k arbitrary: s x)
  case 0 then show ?case by simp
next
  case (Suc k)
  from Suc.prems(2) obtain x1 s1 where
    r: "propagate_round m s x psel csels ff = Inr (x1, s1)" and
    l: "propagation_loop m k s1 x1 psel csels ff = Inr (y, s')"
    by (auto split: sum.splits)
  have "has_shape x1 n (propagated_info_len m)"
    using lk Suc.prems(1) r by (rule propagate_round_shape)
  then show ?case using l by (rule Suc.IH)
qed

lemma propagation_loop_ok_iff:
  assumes lk: "layers_keep_shape m"
  shows "has_shape x n (propagated_info_len m) \<Longrightarrow>
         (\<exists>out. propagation_loop m k s x psel csels ff = Inr out) \<longleftrightarrow>
           k = 0 \<or> round_accepts n psel csels (length ff)"
proof (induction k arbitrary: s x)
  case 0 then show ?case by simp
next
  case (Suc k)
  have xn: "length x = n" using Suc.prems by (simp add: has_shape_def)
  show ?case
  proof (cases "round_accepts n psel csels (length ff)")
    case False
    then have "\<not> (\<exists>out. propagate_round m s x psel csels ff = Inr out)"
      using propagate_round_ok_iff[of m s x psel csels ff] xn by simp
    then have "\<not> (\<exists>out. propagation_loop m (Suc k) s x psel csels ff = Inr out)"
      by (auto split: sum.splits)
    then show ?thesis using False by simp
  next
    case True
    then obtain out where "propagate_round m s x psel csels ff = Inr out"
      using propagate_round_ok_iff[of m s x psel csels ff] xn by auto
    then obtain x1 s1 where r: "propagate_round m s x psel csels ff = Inr (x1, s1)"
      by (cases out) simp
    have "has_shape x1 n (propagated_info_len m)"
      using lk Suc.prems r by (rule propagate_round_shape)
    then have "\<exists>out. propagation_loop m k s1 x1 psel csels ff = Inr out"
      using Suc.IH[of x1 s1] True by simp
    then show ?thesis using r True by simp
  qed
qed

lemma prepare_input_shape:
  assumes lk: "layers_keep_shape m" and sh: "has_shape x n (propagated_info_len m)"
  shows "has_shape (fst (prepare_input m s x)) n (propagated_info_len m)"
proof -
  obtain x1 s1 where d: "input_dropout m s x = (x1, s1)" by (cases "input_dropout m s x")
  have "has_shape (fst (input_dropout m s x)) (length x) (propagated_info_len m)"
    using lk sh by (simp add: layers_keep_shape_def keeps_shape_def has_shape_def)
  then have s1: "has_shape x1 n (propagated_info_len m)" using d sh by (simp add: has_shape_def)
  have "has_shape (fst (batchNormPropagatedInfo m s1 x1)) (length x1) (propagated_info_len m)"
    using lk s1 by (simp add: layers_keep_shape_def keeps_shape_def has_shape_def)
  then show ?thesis using d s1 by (simp add: prepare_input_def has_shape_def)
qed

lemma forward_Some:
  "forward m s x psel csels ff tb (Some hook) =
     propagation_loop m (nat (node_info_propagator_stack_depth m))
       (snd (prepare_input m s x)) (fst (prepare_input m s x)) psel csels ff"
  by (simp add: forward_def split: prod.splits)

lemma forward_ok_iff:
  assumes lk: "layers_keep_shape m" and sh: "has_shape x n (propagated_info_len m)"
  shows "(\<exists>out. forward m s x psel csels ff tb hook = Inr out) \<longleftrightarrow>
           hook \<noteq> None \<and>
           (node_info_propagator_stack_depth m \<le> 0 \<or> round_accepts n psel csels (length ff))"
proof (cases hook)
  case None
  then show ?thesis by (simp add: forward_def)
next
  case (Some h)
  have "has_shape (fst (prepare_input m s x)) n (propagated_info_len m)"
    using lk sh by (rule prepare_input_shape)
  from propagation_loop_ok_iff[OF lk this]
  show ?thesis using Some by (simp add: forward_Some)
qed

lemma small_layers_keep_shape: "layers_keep_shape small_layers"
  by (simp add: layers_keep_shape_def keeps_shape_def has_shape_def small_layers_def list_all_iff)

lemma small_nodes_shape: "has_shape small_nodes 4 (propagated_info_len small_layers)"
  by (simp add: has_shape_def small_nodes_def small_layers_def)

lemma small_round_accepts: "round_accepts 4 small_parents small_children (length small_fanouts)"
  by (simp add: round_accepts_def in_range_def small_parents_def small_children_def
        small_fanouts_def children_rows_def normalised_rows_def)

subsection \<open>Shape invariance\<close>

lemma well_formed_batch_accepted:
  "well_formed_batch n parentSel childSels k \<Longrightarrow> round_accepts n parentSel childSels k"
  by (auto simp: well_formed_batch_def round_accepts_def normalised_rows_def)

lemma small_well_formed:
  "well_formed_batch 4 small_parents small_children (length small_fanouts)"
  by (simp add: well_formed_batch_def in_range_def small_parents_def small_children_def
        small_fanouts_def children_rows_def)

text \<open>
  C1, as the code has it. Let the layers keep shapes and the input have \<open>n\<close> rows of
  width \<^verbatim>\<open>propagated_info_len\<close>. Whenever forward returns, the tensor it returns has
  the shape of the input, for every stack depth. And forward does return, with that shape,
  whenever a debug hook is passed and the batch is well formed: selectors with valid
  indices, one parent index per node, child-selector lengths that do not decrease along
  the list and do not exceed the number of nodes, and one fanout factor per accumulated
  row, that is, per node with at least one child, rather than one per node.
\<close>

theorem forward_shape_invariant:
  assumes lk: "layers_keep_shape m" and sh: "has_shape x n (propagated_info_len m)"
  shows "(\<forall>y s'. forward m s x parentSel childSels fanouts tensorBoardHook hook = Inr (y, s')
            \<longrightarrow> has_shape y n (propagated_info_len m)) \<and>
         (hook \<noteq> None \<and> well_formed_batch n parentSel childSels (length fanouts) \<longrightarrow>
            (\<exists>y s'. forward m s x parentSel childSels fanouts tensorBoardHook hook = Inr (y, s') \<and>
                    has_shape y n (propagated_info_len m)))"
proof -
  have shape: "has_shape y n (propagated_info_len m)"
    if run: "forward m s x parentSel childSels fanouts tensorBoardHook hook = Inr (y, s')"
    for y s'
  proof -
    from run obtain h where h: "hook = Some h" by (cases hook) (simp_all add: forward_def)
    have p: "has_shape (fst (prepare_input m s x)) n (propagated_info_len m)"
      using lk sh by (rule prepare_input_shape)
    from run h have "propagation_loop m (nat (node_info_propagator_stack_depth m))
         (snd (prepare_input m s x)) (fst (prepare_input m s x)) parentSel childSels fanouts
        = Inr (y, s')" by (simp add: forward_Some)
    with lk p show ?thesis by (rule propagation_loop_shape)
  qed
  have returns: "\<exists>y s'. forward m s x parentSel childSels fanouts tensorBoardHook hook = Inr (y, s') \<and>
                    has_shape y n (propagated_info_len m)"
    if h: "hook \<noteq> None" and wf: "well_formed_batch n parentSel childSels (length fanouts)"
  proof -
    have "round_accepts n parentSel childSels (length fanouts)"
      using wf by (rule well_formed_batch_accepted)
    then obtain out where
      out: "forward m s x parentSel childSels fanouts tensorBoardHook hook = Inr out"
      using forward_ok_iff[OF lk sh, of s parentSel childSels fanouts tensorBoardHook hook] h
      by auto
    obtain y s' where "out = (y, s')" by (cases out)
    with out shape show ?thesis by blast
  qed
  from shape returns show ?thesis by blast
qed

theorem forward_shape_invariant_witness:
  "layers_keep_shape small_layers \<and> has_shape small_nodes 4 (propagated_info_len small_layers) \<and>
   well_formed_batch 4 small_parents small_children (length small_fanouts) \<and>
   (\<exists>y s'. forward small_layers 0 small_nodes small_parents small_children small_fanouts ()
             (Some no_hook) = Inr (y, s') \<and>
           has_shape y 4 (propagated_info_len small_layers))"
proof -
  note t = forward_shape_invariant[OF small_layers_keep_shape small_nodes_shape,
      of 0 small_parents small_children small_fanouts "()" "Some no_hook"]
  from t small_well_formed
  have "\<exists>y s'. forward small_layers 0 small_nodes small_parents small_children small_fanouts ()
             (Some no_hook) = Inr (y, s') \<and>
           has_shape y 4 (propagated_info_len small_layers)" by simp
  then show ?thesis using small_layers_keep_shape small_nodes_shape small_well_formed by blast
qed

text \<open>
  C1 as stated fails: for the small batch with one fanout factor per node (the child
  counts 2, 1, 0 and 0, as many as the nodes) the input has one row per node and every
  selector index is valid, yet forward returns no tensor: the two accumulated rows do not
  broadcast against four factors, and the division raises \<^verbatim>\<open>RuntimeError\<close>.
\<close>

theorem one_fanout_per_node_raises:
  "has_shape small_nodes 4 (propagated_info_len small_layers) \<and>
   in_range 4 small_parents \<and> length small_parents = 4 \<and>
   list_all (in_range 4) small_children \<and>
   length small_per_node_fanouts = length small_nodes \<and>
   forward small_layers 0 small_nodes small_parents small_children small_per_node_fanouts ()
     (Some no_hook) = Inl RuntimeError"
  by (simp add: forward_def prepare_input_def propagate_round_def index_select_def in_range_def
        gru_cell_def div_fanout_def tensor_add_def zero_pad_rows_def has_shape_def
        small_layers_def small_nodes_def small_parents_def small_children_def
        small_per_node_fanouts_def Let_def numeral_2_eq_2)

subsection \<open>Accumulating the children info\<close>

lemma accumulate_children_append:
  "accumulate_children tr x (xs @ ys) acc =
     (case accumulate_children tr x xs acc of
        Inl e \<Rightarrow> Inl e
      | Inr a \<Rightarrow> accumulate_children tr x ys a)"
  by (induction xs arbitrary: acc) (simp_all add: Let_def split: sum.splits)

lemma accumulate_children_no_index_error:
  "list_all (in_range (length x)) sels \<Longrightarrow> accumulate_children tr x sels acc \<noteq> Inl IndexError"
  by (induction sels arbitrary: acc) (simp_all add: Let_def index_select_def)

lemma children_rows_take:
  "k \<le> length sels \<Longrightarrow>
   children_rows (take k sels) = (if k = 0 then 0 else length (sels ! (k - 1)))"
  by (cases k) (auto simp: children_rows_def last_conv_nth min_def)

lemma children_rows_take_mono:
  assumes "sorted (map length sels)" "j \<le> k" "k \<le> length sels"
  shows "children_rows (take j sels) \<le> children_rows (take k sels)"
proof (cases "j = 0")
  case True
  then show ?thesis by (simp add: children_rows_def)
next
  case False
  then have k: "k \<noteq> 0" and lt: "k - 1 < length (map length sels)" and le: "j - 1 \<le> k - 1"
    using assms by auto
  have "map length sels ! (j - 1) \<le> map length sels ! (k - 1)"
    using assms(1) le lt by (rule sorted_nth_mono)
  then show ?thesis using False k assms by (simp add: children_rows_take)
qed

lemma accumulate_children_no_assertion:
  "sorted (length acc # map length sels) \<Longrightarrow>
   accumulate_children tr x sels acc \<noteq> Inl AssertionError"
proof (induction sels arbitrary: acc)
  case Nil then show ?case by simp
next
  case (Cons sel sels)
  show ?case
  proof (cases "index_select x sel")
    case (Inl e)
    then have "e = IndexError" by (simp add: index_select_Inl)
    with Inl show ?thesis by simp
  next
    case (Inr g)
    have lg: "length (map tr g) = length sel" using index_select_length[OF Inr] by simp
    have tl: "sorted (length sel # map length sels)" using Cons.prems by simp
    show ?thesis
    proof (cases "length acc = 0")
      case True
      have "accumulate_children tr x sels (map tr g) \<noteq> Inl AssertionError"
        using Cons.IH[of "map tr g"] tl lg by simp
      then show ?thesis using Inr True by simp
    next
      case False
      let ?a = "tensor_add (if length (map tr g) > length acc
                      then zero_pad_rows (length (map tr g) - length acc) acc else acc) (map tr g)"
      have le: "length acc \<le> length sel" using Cons.prems by simp
      have la: "length ?a = length sel" using le lg
        by (simp add: tensor_add_length zero_pad_rows_length)
      have "accumulate_children tr x sels ?a \<noteq> Inl AssertionError"
        using Cons.IH[of ?a] tl la by simp
      then show ?thesis using Inr False le lg by (simp add: Let_def)
    qed
  qed
qed

lemma div_fanout_error: "div_fanout info ff = Inl e \<Longrightarrow> e = RuntimeError"
  by (auto simp: div_fanout_def split: if_splits)

lemma gru_cell_error: "gru_cell c i h = Inl e \<Longrightarrow> e = RuntimeError"
  by (auto simp: gru_cell_def split: if_splits)

lemma propagate_round_no_assertion:
  assumes "sorted (map length csels)"
  shows "propagate_round m s x psel csels ff \<noteq> Inl AssertionError"
proof
  assume a: "propagate_round m s x psel csels ff = Inl AssertionError"
  have na: "accumulate_children (transformChildrenInfo m) x csels [] \<noteq> Inl AssertionError"
    using accumulate_children_no_assertion[of "[]" csels "transformChildrenInfo m" x] assms by simp
  from a na show False
    by (auto simp: propagate_round_def Let_def index_select_Inl
             split: sum.splits if_splits dest: div_fanout_error gru_cell_error)
qed

lemma propagation_loop_no_assertion:
  assumes "sorted (map length csels)"
  shows "propagation_loop m k s x psel csels ff \<noteq> Inl AssertionError"
proof (induction k arbitrary: s x)
  case 0 then show ?case by simp
next
  case (Suc k)
  show ?case
    using propagate_round_no_assertion[OF assms, of m s x psel ff] Suc.IH
    by (auto split: sum.splits)
qed

lemma forward_no_assertion:
  assumes "sorted (map length csels)"
  shows "forward m s x psel csels ff tb hook \<noteq> Inl AssertionError"
proof (cases hook)
  case None then show ?thesis by (simp add: forward_def)
next
  case (Some h)
  then show ?thesis using propagation_loop_no_assertion[OF assms] by (simp add: forward_Some)
qed

lemma accumulate_children_unsorted:
  assumes valid: "list_all (in_range (length x)) sels" and ns: "\<not> sorted (map length sels)"
  shows "accumulate_children tr x sels [] = Inl AssertionError"
proof -
  have "\<not> (\<exists>r. accumulate_children tr x sels [] = Inr r)"
    using accumulate_children_ok_iff[of tr x sels "[]"] ns by simp
  then obtain e where e: "accumulate_children tr x sels [] = Inl e"
    by (cases "accumulate_children tr x sels []") auto
  then have "e = IndexError \<or> e = AssertionError" by (rule accumulate_children_error)
  moreover have "e \<noteq> IndexError"
    using accumulate_children_no_index_error[OF valid, of tr "[]"] e by auto
  ultimately show ?thesis using e by simp
qed

lemma forward_unsorted:
  assumes lk: "layers_keep_shape m" and sh: "has_shape x n (propagated_info_len m)"
    and depth: "0 < node_info_propagator_stack_depth m"
    and pv: "in_range n psel" and valid: "list_all (in_range n) csels"
    and ns: "\<not> sorted (map length csels)"
  shows "forward m s x psel csels ff tb (Some hook) = Inl AssertionError"
proof -
  let ?x = "fst (prepare_input m s x)" and ?s = "snd (prepare_input m s x)"
  have "has_shape ?x n (propagated_info_len m)" using lk sh by (rule prepare_input_shape)
  then have l: "length ?x = n" by (simp add: has_shape_def)
  have a: "accumulate_children (transformChildrenInfo m) ?x csels [] = Inl AssertionError"
    using accumulate_children_unsorted[of ?x csels] valid ns l by simp
  have r: "propagate_round m ?s ?x psel csels ff = Inl AssertionError"
    using a pv l by (simp add: propagate_round_def index_select_def Let_def)
  obtain k where k: "nat (node_info_propagator_stack_depth m) = Suc k"
    using depth by (cases "nat (node_info_propagator_stack_depth m)") auto
  show ?thesis using r k by (simp add: forward_Some)
qed

text \<open>
  C2, as the code has it. Let every index of every child selector be in range. If the
  selector lengths do not decrease along the list (the longest selector last), then the
  inner loop passes its length check in every iteration: after \<open>k\<close> selectors the
  accumulator exists and has as many rows as the \<open>k\<close>-th selector, so it never shrinks,
  and forward does not raise \<^verbatim>\<open>AssertionError\<close>, whatever its other arguments are. If
  the lengths decrease anywhere, the inner loop stops with \<^verbatim>\<open>AssertionError\<close>, and so
  does forward when the layers keep shapes, the stack depth is positive, the parent
  selector is in range and a debug hook is passed. The first selector of the list seeds
  the accumulator.
\<close>

theorem accumulate_children_never_shrinks:
  assumes valid: "list_all (in_range (length x)) sels"
  shows "(sorted (map length sels) \<longrightarrow>
            (\<forall>k\<le>length sels. \<exists>acc. accumulate_children tr x (take k sels) [] = Inr acc \<and>
                                length acc = children_rows (take k sels)) \<and>
            (\<forall>j k. j \<le> k \<and> k \<le> length sels \<longrightarrow>
                   children_rows (take j sels) \<le> children_rows (take k sels)) \<and>
            forward m s x parentSel sels fanouts tensorBoardHook hook \<noteq> Inl AssertionError) \<and>
         (\<not> sorted (map length sels) \<longrightarrow>
            accumulate_children tr x sels [] = Inl AssertionError \<and>
            (layers_keep_shape m \<and> has_shape x (length x) (propagated_info_len m) \<and>
             0 < node_info_propagator_stack_depth m \<and> in_range (length x) parentSel \<and>
             hook \<noteq> None \<longrightarrow>
               forward m s x parentSel sels fanouts tensorBoardHook hook = Inl AssertionError)) \<and>
         (sels \<noteq> [] \<longrightarrow>
            accumulate_children tr x (take 1 sels) [] =
              Inr (map tr (map (\<lambda>i. x ! nat (if i < 0 then int (length x) + i else i)) (hd sels))))"
proof (intro conjI impI allI)
  assume "sels \<noteq> []"
  then obtain sel rest where c: "sels = sel # rest" by (cases sels) auto
  then have "in_range (length x) sel" using valid by simp
  then show "accumulate_children tr x (take 1 sels) [] =
              Inr (map tr (map (\<lambda>i. x ! nat (if i < 0 then int (length x) + i else i)) (hd sels)))"
    using c by (simp add: index_select_def)
next
  fix k
  assume s: "sorted (map length sels)" and k: "k \<le> length sels"
  have v: "list_all (in_range (length x)) (take k sels)"
    using valid by (auto simp: list_all_iff dest: in_set_takeD)
  have "sorted (take k (map length sels))" using s by (rule sorted_wrt_take)
  then have "sorted (map length (take k sels))" by (simp add: take_map)
  then obtain acc where a: "accumulate_children tr x (take k sels) [] = Inr acc"
    using accumulate_children_ok_iff[of tr x "take k sels" "[]"] v by auto
  then have "length acc = children_rows (take k sels)" by (rule accumulate_children_rows)
  with a show "\<exists>acc. accumulate_children tr x (take k sels) [] = Inr acc \<and>
                     length acc = children_rows (take k sels)" by blast
next
  fix j k
  assume "sorted (map length sels)" "j \<le> k \<and> k \<le> length sels"
  then show "children_rows (take j sels) \<le> children_rows (take k sels)"
    by (simp add: children_rows_take_mono)
next
  assume "sorted (map length sels)"
  then show "forward m s x parentSel sels fanouts tensorBoardHook hook \<noteq> Inl AssertionError"
    by (rule forward_no_assertion)
next
  assume "\<not> sorted (map length sels)"
  with valid show "accumulate_children tr x sels [] = Inl AssertionError"
    by (rule accumulate_children_unsorted)
next
  assume ns: "\<not> sorted (map length sels)"
    and h: "layers_keep_shape m \<and> has_shape x (length x) (propagated_info_len m) \<and>
             0 < node_info_propagator_stack_depth m \<and> in_range (length x) parentSel \<and>
             hook \<noteq> None"
  then obtain hk where hk: "hook = Some hk" by auto
  show "forward m s x parentSel sels fanouts tensorBoardHook hook = Inl AssertionError"
    using forward_unsorted[of m x "length x" parentSel sels s fanouts tensorBoardHook hk]
      h valid ns hk by simp
qed

theorem accumulate_children_never_shrinks_witness:
  "list_all (in_range (length small_nodes)) small_children \<and>
   sorted (map length small_children) \<and>
   (\<exists>acc. accumulate_children (transformChildrenInfo small_layers) small_nodes
            small_children [] = Inr acc \<and> length acc = 2) \<and>
   forward small_layers 0 small_nodes small_parents small_children small_fanouts ()
     (Some no_hook) \<noteq> Inl AssertionError \<and>
   list_all (in_range (length small_nodes)) spec_order_children \<and>
   \<not> sorted (map length spec_order_children) \<and>
   layers_keep_shape small_layers \<and>
   has_shape small_nodes (length small_nodes) (propagated_info_len small_layers) \<and>
   0 < node_info_propagator_stack_depth small_layers \<and>
   in_range (length small_nodes) small_parents \<and>
   accumulate_children (transformChildrenInfo small_layers) small_nodes
     spec_order_children [] = Inl AssertionError \<and>
   forward small_layers 0 small_nodes small_parents spec_order_children small_fanouts ()
     (Some no_hook) = Inl AssertionError"
proof -
  have v: "list_all (in_range (length small_nodes)) small_children"
    and s: "sorted (map length small_children)"
    and v': "list_all (in_range (length small_nodes)) spec_order_children"
    and s': "\<not> sorted (map length spec_order_children)"
    and pv: "in_range (length small_nodes) small_parents"
    and d: "0 < node_info_propagator_stack_depth small_layers"
    and ln: "length small_nodes = 4"
    by (simp_all add: in_range_def small_nodes_def small_children_def spec_order_children_def
          small_parents_def small_layers_def)
  have sh: "has_shape small_nodes (length small_nodes) (propagated_info_len small_layers)"
    using small_nodes_shape ln by simp
  have c: "children_rows (take (length small_children) small_children) = 2"
    by (simp add: children_rows_def small_children_def)
  note t = accumulate_children_never_shrinks[OF v, of "transformChildrenInfo small_layers"
      small_layers 0 small_parents small_fanouts "()" "Some no_hook"]
  from t s
  have "\<exists>acc. accumulate_children (transformChildrenInfo small_layers) small_nodes
            (take (length small_children) small_children) [] = Inr acc \<and>
            length acc = children_rows (take (length small_children) small_children)"
    by blast
  then have a: "\<exists>acc. accumulate_children (transformChildrenInfo small_layers) small_nodes
            small_children [] = Inr acc \<and> length acc = 2" using c by simp
  from t s have f: "forward small_layers 0 small_nodes small_parents small_children small_fanouts ()
     (Some no_hook) \<noteq> Inl AssertionError" by blast
  note t' = accumulate_children_never_shrinks[OF v', of "transformChildrenInfo small_layers"
      small_layers 0 small_parents small_fanouts "()" "Some no_hook"]
  from t' s' have a': "accumulate_children (transformChildrenInfo small_layers) small_nodes
     spec_order_children [] = Inl AssertionError" by blast
  from t' s' small_layers_keep_shape sh d pv
  have f': "forward small_layers 0 small_nodes small_parents spec_order_children small_fanouts ()
     (Some no_hook) = Inl AssertionError" by simp
  from v s a f v' s' small_layers_keep_shape sh d pv a' f' show ?thesis by blast
qed

text \<open>
  C2 as stated fails: with the longest selector first (rank 0 longest, lengths
  non-increasing in the rank) the length check of the second iteration fails and forward
  raises \<^verbatim>\<open>AssertionError\<close>.
\<close>

theorem rank0_longest_fails_length_check:
  "sorted (rev (map length spec_order_children)) \<and>
   list_all (in_range (length small_nodes)) spec_order_children \<and>
   forward small_layers 0 small_nodes small_parents spec_order_children small_fanouts ()
     (Some no_hook) = Inl AssertionError"
  by (simp add: forward_def prepare_input_def propagate_round_def index_select_def in_range_def
        small_layers_def small_nodes_def small_parents_def spec_order_children_def
        small_fanouts_def Let_def numeral_2_eq_2)

subsection \<open>No round\<close>

lemma small_dropout_disabled: "dropout_disabled small_layers"
  by (simp add: dropout_disabled_def small_layers_def)

text \<open>
  C4, as the code has it. With a stack depth of zero (or less) and input dropout switched
  off, forward with a debug hook returns the input when batch normalisation is disabled or
  the input has at most one row, and the batch-normalised input otherwise.
\<close>

theorem forward_zero_depth:
  assumes "node_info_propagator_stack_depth m \<le> 0"
    and "\<forall>s t. fst (input_dropout m s t) = t"
  shows "forward m s x parentSel childSels fanouts tensorBoardHook (Some hook) =
           Inr (if \<not> disable_batch_norm m \<and> length x > 1
                then batchNormPropagatedInfo m (snd (input_dropout m s x)) x
                else (x, snd (input_dropout m s x)))"
proof -
  obtain x1 s1 where d: "input_dropout m s x = (x1, s1)" by (cases "input_dropout m s x")
  have "x1 = x" using assms(2) d by (metis fst_conv)
  then show ?thesis using assms(1) d
    by (simp add: forward_def prepare_input_def)
qed

theorem forward_zero_depth_witness:
  "node_info_propagator_stack_depth norm_layers \<le> 0 \<and>
   (\<forall>s t. fst (input_dropout norm_layers s t) = t) \<and>
   forward norm_layers 0 single_node [0] [] [] () (Some no_hook) = Inr (single_node, 1)"
proof -
  have a: "node_info_propagator_stack_depth norm_layers \<le> 0"
    and b: "\<forall>s t. fst (input_dropout norm_layers s t) = t"
    by (simp_all add: norm_layers_def small_layers_def)
  from forward_zero_depth[OF a b, of 0 single_node "[0]" "[]" "[]" "()" no_hook]
  have "forward norm_layers 0 single_node [0] [] [] () (Some no_hook) = Inr (single_node, 1)"
    by (simp add: norm_layers_def small_layers_def single_node_def)
  with a b show ?thesis by blast
qed

text \<open>
  C4 as stated fails: with stack depth zero and dropout switched off, but batch
  normalisation enabled and four rows, the output is the normalised input, not the input.
\<close>

theorem zero_depth_output_differs_from_input:
  "node_info_propagator_stack_depth norm_layers = 0 \<and> dropout_disabled norm_layers \<and>
   forward norm_layers 0 small_nodes small_parents small_children small_fanouts ()
     (Some no_hook) = Inr ([[- 1], [0], [1], [2]], 2) \<and>
   [[- 1], [0], [1], [2]] \<noteq> small_nodes"
  by (simp add: forward_def prepare_input_def dropout_disabled_def norm_layers_def
        small_layers_def small_nodes_def)

subsection \<open>A tree of one node\<close>

lemma single_node_round:
  assumes "length x = 1"
  shows "propagate_round m s x [0] [] fanouts = Inr (dropout m s (merged_rows m x x))"
proof -
  from assms obtain row where x: "x = [row]" by (cases x) auto
  show ?thesis
    by (simp add: x propagate_round_def index_select_def in_range_def gru_cell_def
          merged_rows_def Let_def)
qed

lemma single_node_loop:
  assumes lk: "layers_keep_shape m"
  shows "has_shape x 1 (propagated_info_len m) \<Longrightarrow>
         propagation_loop m k s x [0] [] fanouts = Inr (self_loop_rounds m k s x)"
proof (induction k arbitrary: s x)
  case 0 then show ?case by simp
next
  case (Suc k)
  have l: "length x = 1" using Suc.prems by (simp add: has_shape_def)
  obtain x1 s1 where d: "dropout m s (merged_rows m x x) = (x1, s1)"
    by (cases "dropout m s (merged_rows m x x)")
  have r: "propagate_round m s x [0] [] fanouts = Inr (x1, s1)"
    using single_node_round[OF l, of m s fanouts] d by simp
  have "has_shape x1 1 (propagated_info_len m)"
    using lk Suc.prems r by (rule propagate_round_shape)
  then have "propagation_loop m k s1 x1 [0] [] fanouts = Inr (self_loop_rounds m k s1 x1)"
    by (rule Suc.IH)
  then show ?case using r d by simp
qed

text \<open>
  C8. For one tree of one node (one row, the parent selector \<open>[0]\<close>, no child selector)
  forward with a debug hook does not raise, whatever the fanout vector is, and returns
  the result of the rounds in which only the parent step with the self-loop and the output
  dropout are applied; batch normalisation is skipped, the input having one row.
\<close>

theorem single_node_tree:
  assumes lk: "layers_keep_shape m" and sh: "has_shape x 1 (propagated_info_len m)"
  shows "forward m s x [0] [] fanouts tensorBoardHook (Some hook) =
           Inr (self_loop_rounds m (nat (node_info_propagator_stack_depth m))
                  (snd (input_dropout m s x)) (fst (input_dropout m s x)))"
proof -
  obtain x1 s1 where d: "input_dropout m s x = (x1, s1)" by (cases "input_dropout m s x")
  have "has_shape (fst (input_dropout m s x)) (length x) (propagated_info_len m)"
    using lk sh by (simp add: layers_keep_shape_def keeps_shape_def has_shape_def)
  then have s1: "has_shape x1 1 (propagated_info_len m)" using d sh by (simp add: has_shape_def)
  then have "length x1 = 1" by (simp add: has_shape_def)
  then have p: "prepare_input m s x = (x1, s1)" using d by (simp add: prepare_input_def)
  show ?thesis using single_node_loop[OF lk s1] p d by (simp add: forward_Some)
qed

theorem single_node_tree_witness:
  "layers_keep_shape small_layers \<and> has_shape single_node 1 (propagated_info_len small_layers) \<and>
   forward small_layers 0 single_node [0] [] [] () (Some no_hook) = Inr ([[45]], 3)"
proof -
  have sh: "has_shape single_node 1 (propagated_info_len small_layers)"
    by (simp add: has_shape_def single_node_def small_layers_def)
  have "self_loop_rounds small_layers (nat (node_info_propagator_stack_depth small_layers))
          (snd (input_dropout small_layers 0 single_node))
          (fst (input_dropout small_layers 0 single_node)) = ([[45]], 3)"
    by (simp add: small_layers_def single_node_def merged_rows_def numeral_2_eq_2)
  with single_node_tree[OF small_layers_keep_shape sh, of 0 "[]" "()" no_hook]
  show ?thesis using small_layers_keep_shape sh by simp
qed

subsection \<open>The parent step and the children step\<close>

lemma merged_rows_nth:
  assumes "length pg = length x" "i < length x"
  shows "merged_rows m pg x ! i = overlayParentInfo m (transformParentInfo m (pg ! i)) (x ! i)"
  using assms by (simp add: merged_rows_def)

lemma normalised_length:
  assumes "accumulate_children tr x sels [] = Inr acc"
    and "(if length acc \<noteq> 0 then div_fanout acc ff else Inr acc) = Inr nrm"
  shows "length nrm = normalised_rows (children_rows sels) (length ff)"
proof -
  have la: "length acc = children_rows sels" using assms(1) by (rule accumulate_children_rows)
  show ?thesis
  proof (cases "length acc = 0")
    case True
    then show ?thesis using assms(2) la by (simp add: normalised_rows_def)
  next
    case False
    then have d: "div_fanout acc ff = Inr nrm" using assms(2) by simp
    show ?thesis using div_fanout_length[OF d] False la by (simp add: normalised_rows_def)
  qed
qed

lemma child_count_pos:
  assumes "i < children_rows sels"
  shows "0 < child_count sels i"
proof -
  from assms have ne: "sels \<noteq> []" and i: "i < length (last sels)"
    by (auto simp: children_rows_def split: if_splits)
  have "last sels \<in> set (filter (\<lambda>sel. i < length sel) sels)" using ne i by simp
  then show ?thesis unfolding child_count_def by (metis length_pos_if_in_set)
qed

lemma child_count_zero:
  assumes "sorted (map length sels)" "children_rows sels \<le> i"
  shows "child_count sels i = 0"
proof -
  have "\<And>sel. sel \<in> set sels \<Longrightarrow> length sel \<le> i"
  proof -
    fix sel assume m: "sel \<in> set sels"
    then have ne: "sels \<noteq> []" by auto
    from m obtain j where j: "j < length sels" "sels ! j = sel" by (auto simp: in_set_conv_nth)
    have "map length sels ! j \<le> map length sels ! (length sels - 1)"
      using assms(1) j(1) by (intro sorted_nth_mono) auto
    then have "length sel \<le> length (last sels)" using j ne by (simp add: last_conv_nth)
    then show "length sel \<le> i" using assms(2) ne by (simp add: children_rows_def)
  qed
  then have "\<forall>sel\<in>set sels. \<not> i < length sel" by (simp add: not_less)
  then have "filter (\<lambda>sel. i < length sel) sels = []" by (simp add: filter_empty_conv)
  then show ?thesis by (simp add: child_count_def)
qed

lemma children_rows_longest:
  assumes "sorted (map length sels)" "sel \<in> set sels"
  shows "length sel \<le> children_rows sels"
proof -
  from assms(2) have ne: "sels \<noteq> []" by auto
  from assms(2) obtain j where j: "j < length sels" "sels ! j = sel"
    by (auto simp: in_set_conv_nth)
  have "map length sels ! j \<le> map length sels ! (length sels - 1)"
    using assms(1) j(1) by (intro sorted_nth_mono) auto
  then have "length sel \<le> length (last sels)" using j ne by (simp add: last_conv_nth)
  then show ?thesis using ne by (simp add: children_rows_def)
qed

lemma child_count_iff:
  assumes "sorted (map length sels)"
  shows "0 < child_count sels i \<longleftrightarrow> i < children_rows sels"
  using child_count_pos[of i sels] child_count_zero[OF assms, of i]
  by (cases "i < children_rows sels") auto

text \<open>
  C3, as the code has it. In every round that completes with one fanout factor per
  accumulated row, the parent cell is applied to every row, with the transformed row of
  the parent as input. The children cell is applied to the rows below the length of the
  longest child selector, which is the last of the list, and to no other row; these are
  the rows of the nodes that have a child. Every row from that length on keeps its
  parent-merged value through the children step, and the two parts are concatenated in
  node order before the output dropout.
\<close>

theorem children_step_frame:
  assumes run: "propagate_round m s x parentSel childSels fanouts = Inr out"
    and one: "length fanouts = children_rows childSels"
  shows "\<exists>parentRows acc normalised z.
           index_select x parentSel = Inr parentRows \<and>
           accumulate_children (transformChildrenInfo m) x childSels [] = Inr acc \<and>
           (if length acc \<noteq> 0 then div_fanout acc fanouts else Inr acc) = Inr normalised \<and>
           length normalised = children_rows childSels \<and>
           children_rows childSels \<le> length x \<and>
           out = dropout m s z \<and> length z = length x \<and>
           (\<forall>i<length x. merged_rows m parentRows x ! i =
               overlayParentInfo m (transformParentInfo m (parentRows ! i)) (x ! i)) \<and>
           (\<forall>i<length x. z ! i =
               (if i < children_rows childSels
                then overlayChildrenInfo m (normalised ! i) (merged_rows m parentRows x ! i)
                else merged_rows m parentRows x ! i)) \<and>
           (\<forall>sel\<in>set childSels. length sel \<le> children_rows childSels) \<and>
           (\<forall>i. 0 < child_count childSels i \<longleftrightarrow> i < children_rows childSels)"
proof -
  from run obtain pg acc nrm where
    pg: "index_select x parentSel = Inr pg" and lp: "length parentSel = length x" and
    acc: "accumulate_children (transformChildrenInfo m) x childSels [] = Inr acc" and
    nrm: "(if length acc \<noteq> 0 then div_fanout acc fanouts else Inr acc) = Inr nrm" and
    le: "length nrm \<le> length x" and
    out: "out = dropout m s
             (map2 (overlayChildrenInfo m) nrm (take (length nrm) (merged_rows m pg x))
              @ drop (length nrm) (merged_rows m pg x))"
    by (rule propagate_round_Inr)
  let ?mr = "merged_rows m pg x"
  let ?h = "map2 (overlayChildrenInfo m) nrm (take (length nrm) ?mr)"
  let ?z = "?h @ drop (length nrm) ?mr"
  have lpg: "length pg = length x" using index_select_length[OF pg] lp by simp
  have lmr: "length ?mr = length x" using lpg by (rule merged_rows_length)
  have lh: "length ?h = length nrm" using le lmr by simp
  have lz: "length ?z = length x" using le lmr by simp
  have "length nrm = normalised_rows (children_rows childSels) (length fanouts)"
    using acc nrm by (rule normalised_length)
  then have ln: "length nrm = children_rows childSels"
    using one by (simp add: normalised_rows_def)
  have srt: "sorted (map length childSels)"
    using accumulate_children_ok_iff[of "transformChildrenInfo m" x childSels "[]"] acc by simp
  have m: "\<forall>i<length x. ?mr ! i =
               overlayParentInfo m (transformParentInfo m (pg ! i)) (x ! i)"
    using lpg by (simp add: merged_rows_nth)
  have z: "\<forall>i<length x. ?z ! i =
               (if i < children_rows childSels
                then overlayChildrenInfo m (nrm ! i) (?mr ! i) else ?mr ! i)"
  proof (intro allI impI)
    fix i assume i: "i < length x"
    show "?z ! i = (if i < children_rows childSels
                    then overlayChildrenInfo m (nrm ! i) (?mr ! i) else ?mr ! i)"
    proof (cases "i < length nrm")
      case True
      then have "?z ! i = ?h ! i" using lh by (simp add: nth_append)
      also have "\<dots> = overlayChildrenInfo m (nrm ! i) (?mr ! i)"
        using True le lmr by simp
      finally show ?thesis using True ln by simp
    next
      case False
      then have "?z ! i = drop (length nrm) ?mr ! (i - length nrm)"
        using lh by (simp add: nth_append)
      also have "\<dots> = ?mr ! i" using False le lmr by simp
      finally show ?thesis using False ln by simp
    qed
  qed
  have lg: "\<forall>sel\<in>set childSels. length sel \<le> children_rows childSels"
    using children_rows_longest[OF srt] by blast
  have cc: "\<forall>i. 0 < child_count childSels i \<longleftrightarrow> i < children_rows childSels"
    using child_count_iff[OF srt] by blast
  have le': "children_rows childSels \<le> length x" using le ln by simp
  from pg acc nrm ln le' out lz m z lg cc
  have "index_select x parentSel = Inr pg \<and>
           accumulate_children (transformChildrenInfo m) x childSels [] = Inr acc \<and>
           (if length acc \<noteq> 0 then div_fanout acc fanouts else Inr acc) = Inr nrm \<and>
           length nrm = children_rows childSels \<and>
           children_rows childSels \<le> length x \<and>
           out = dropout m s ?z \<and> length ?z = length x \<and>
           (\<forall>i<length x. merged_rows m pg x ! i =
               overlayParentInfo m (transformParentInfo m (pg ! i)) (x ! i)) \<and>
           (\<forall>i<length x. ?z ! i =
               (if i < children_rows childSels
                then overlayChildrenInfo m (nrm ! i) (merged_rows m pg x ! i)
                else merged_rows m pg x ! i)) \<and>
           (\<forall>sel\<in>set childSels. length sel \<le> children_rows childSels) \<and>
           (\<forall>i. 0 < child_count childSels i \<longleftrightarrow> i < children_rows childSels)"
    by (intro conjI) assumption+
  then show ?thesis by (intro exI)
qed

theorem children_step_frame_witness:
  "propagate_round small_layers 0 small_nodes small_parents small_children small_fanouts
     = Inr ([[- (1 / 2)], [- 1], [5], [8]], 1) \<and>
   length small_fanouts = children_rows small_children \<and>
   (\<exists>parentRows acc normalised z.
           index_select small_nodes small_parents = Inr parentRows \<and>
           accumulate_children (transformChildrenInfo small_layers) small_nodes small_children []
             = Inr acc \<and>
           (if length acc \<noteq> 0 then div_fanout acc small_fanouts else Inr acc) = Inr normalised \<and>
           length normalised = children_rows small_children \<and>
           children_rows small_children \<le> length small_nodes \<and>
           ([[- (1 / 2)], [- 1], [5], [8]], 1) = dropout small_layers 0 z \<and>
           length z = length small_nodes \<and>
           (\<forall>i<length small_nodes. merged_rows small_layers parentRows small_nodes ! i =
               overlayParentInfo small_layers (transformParentInfo small_layers (parentRows ! i))
                 (small_nodes ! i)) \<and>
           (\<forall>i<length small_nodes. z ! i =
               (if i < children_rows small_children
                then overlayChildrenInfo small_layers (normalised ! i)
                       (merged_rows small_layers parentRows small_nodes ! i)
                else merged_rows small_layers parentRows small_nodes ! i)) \<and>
           (\<forall>sel\<in>set small_children. length sel \<le> children_rows small_children) \<and>
           (\<forall>i. 0 < child_count small_children i \<longleftrightarrow> i < children_rows small_children))"
proof -
  have run: "propagate_round small_layers 0 small_nodes small_parents small_children small_fanouts
     = Inr ([[- (1 / 2)], [- 1], [5], [8]], 1)"
    by (simp add: propagate_round_def index_select_def in_range_def gru_cell_def div_fanout_def
          tensor_add_def zero_pad_rows_def small_layers_def small_nodes_def small_parents_def
          small_children_def small_fanouts_def Let_def)
  have one: "length small_fanouts = children_rows small_children"
    by (simp add: small_fanouts_def small_children_def children_rows_def)
  from children_step_frame[OF run one] run one show ?thesis by (intro conjI) assumption+
qed

text \<open>
  C3 as stated fails: for a root with one child and one fanout factor per node, the only
  child selector has length one, yet the children cell is applied to both rows, the leaf
  included: the single accumulated row is broadcast against the two fanout factors. The
  dropout of these layers returns its input, so the tensor of the round is the tensor
  after the children step.
\<close>

theorem children_step_beyond_first_selector:
  "length (hd pair_children) = 1 \<and>
   propagate_round marking_layers 0 pair_nodes pair_parents pair_children pair_fanouts
     = Inr ([[42], [42]], 1) \<and>
   index_select pair_nodes pair_parents = Inr [[1], [1]] \<and>
   merged_rows marking_layers [[1], [1]] pair_nodes = [[3], [4]]"
  by (simp add: propagate_round_def index_select_def in_range_def gru_cell_def div_fanout_def
        merged_rows_def marking_layers_def small_layers_def pair_nodes_def pair_parents_def
        pair_children_def pair_fanouts_def Let_def)

subsection \<open>Dividing by the fanout\<close>

text \<open>
  C5, as the code has it, for entries of a field of characteristic zero. Let the batch be
  well formed, with one fanout factor per accumulated row, that is, one per node with at
  least one child. Then the round gathers and accumulates without error, and the fanout
  vector has as many entries as the accumulated info has rows. If any row was accumulated,
  the round divides row \<open>i\<close> of the accumulated info by factor \<open>i\<close>, for exactly the
  accumulated rows, and merges the quotients into the first rows; if none was, the round
  does not divide. The accumulated rows are the rows of the nodes whose child count is not
  zero, so a fanout vector that holds these child counts has no zero entry. With layers
  that keep shapes and a debug hook, forward returns.
\<close>

theorem fanout_normalisation:
  fixes m :: "('a::field_char_0, 's) propagator"
  assumes wf: "well_formed_batch (length x) parentSel childSels (length fanouts)"
  shows "\<exists>parentRows acc.
           index_select x parentSel = Inr parentRows \<and>
           accumulate_children (transformChildrenInfo m) x childSels [] = Inr acc \<and>
           length acc = children_rows childSels \<and>
           length fanouts = length acc \<and>
           (children_rows childSels \<noteq> 0 \<longrightarrow>
              propagate_round m s x parentSel childSels fanouts =
                Inr (dropout m s
                  (map2 (overlayChildrenInfo m)
                     (map2 (\<lambda>row d. map (\<lambda>v. v / d) row) acc fanouts)
                     (take (children_rows childSels) (merged_rows m parentRows x))
                   @ drop (children_rows childSels) (merged_rows m parentRows x))) \<and>
              (\<forall>i<children_rows childSels.
                 map2 (\<lambda>row d. map (\<lambda>v. v / d) row) acc fanouts ! i =
                   map (\<lambda>v. v / fanouts ! i) (acc ! i))) \<and>
           (children_rows childSels = 0 \<longrightarrow>
              propagate_round m s x parentSel childSels fanouts =
                Inr (dropout m s (merged_rows m parentRows x))) \<and>
           ((\<forall>i<children_rows childSels. fanouts ! i = of_nat (child_count childSels i)) \<longrightarrow>
              (\<forall>i<children_rows childSels. fanouts ! i \<noteq> 0)) \<and>
           (\<forall>i. 0 < child_count childSels i \<longleftrightarrow> i < children_rows childSels) \<and>
           (layers_keep_shape m \<and> has_shape x (length x) (propagated_info_len m) \<and>
            hook \<noteq> None \<longrightarrow>
              (\<exists>out. forward m s x parentSel childSels fanouts tensorBoardHook hook = Inr out))"
proof -
  from wf have lf: "length fanouts = children_rows childSels"
    and srt: "sorted (map length childSels)"
    by (simp_all add: well_formed_batch_def)
  have ra: "round_accepts (length x) parentSel childSels (length fanouts)"
    using wf by (rule well_formed_batch_accepted)
  then obtain out where run: "propagate_round m s x parentSel childSels fanouts = Inr out"
    using propagate_round_ok_iff[of m s x parentSel childSels fanouts] by auto
  from run obtain pg acc nrm where
    pg: "index_select x parentSel = Inr pg" and
    acc: "accumulate_children (transformChildrenInfo m) x childSels [] = Inr acc" and
    nrm: "(if length acc \<noteq> 0 then div_fanout acc fanouts else Inr acc) = Inr nrm" and
    out: "out = dropout m s
             (map2 (overlayChildrenInfo m) nrm (take (length nrm) (merged_rows m pg x))
              @ drop (length nrm) (merged_rows m pg x))"
    by (rule propagate_round_Inr)
  have la: "length acc = children_rows childSels" using acc by (rule accumulate_children_rows)
  have lfa: "length fanouts = length acc" using la lf by simp
  have div: "children_rows childSels \<noteq> 0 \<Longrightarrow>
             nrm = map2 (\<lambda>row d. map (\<lambda>v. v / d) row) acc fanouts"
    using nrm la lf by (simp add: div_fanout_def)
  have c1: "children_rows childSels \<noteq> 0 \<longrightarrow>
              propagate_round m s x parentSel childSels fanouts =
                Inr (dropout m s
                  (map2 (overlayChildrenInfo m)
                     (map2 (\<lambda>row d. map (\<lambda>v. v / d) row) acc fanouts)
                     (take (children_rows childSels) (merged_rows m pg x))
                   @ drop (children_rows childSels) (merged_rows m pg x))) \<and>
              (\<forall>i<children_rows childSels.
                 map2 (\<lambda>row d. map (\<lambda>v. v / d) row) acc fanouts ! i =
                   map (\<lambda>v. v / fanouts ! i) (acc ! i))"
  proof
    assume ne: "children_rows childSels \<noteq> 0"
    have ln: "length nrm = children_rows childSels" using div[OF ne] la lf by simp
    have "propagate_round m s x parentSel childSels fanouts =
                Inr (dropout m s
                  (map2 (overlayChildrenInfo m)
                     (map2 (\<lambda>row d. map (\<lambda>v. v / d) row) acc fanouts)
                     (take (children_rows childSels) (merged_rows m pg x))
                   @ drop (children_rows childSels) (merged_rows m pg x)))"
      using run out ln div[OF ne] by simp
    moreover have "\<forall>i<children_rows childSels.
                 map2 (\<lambda>row d. map (\<lambda>v. v / d) row) acc fanouts ! i =
                   map (\<lambda>v. v / fanouts ! i) (acc ! i)"
      using la lf by simp
    ultimately show "propagate_round m s x parentSel childSels fanouts =
                Inr (dropout m s
                  (map2 (overlayChildrenInfo m)
                     (map2 (\<lambda>row d. map (\<lambda>v. v / d) row) acc fanouts)
                     (take (children_rows childSels) (merged_rows m pg x))
                   @ drop (children_rows childSels) (merged_rows m pg x))) \<and>
              (\<forall>i<children_rows childSels.
                 map2 (\<lambda>row d. map (\<lambda>v. v / d) row) acc fanouts ! i =
                   map (\<lambda>v. v / fanouts ! i) (acc ! i))" by (rule conjI)
  qed
  have c2: "children_rows childSels = 0 \<longrightarrow>
              propagate_round m s x parentSel childSels fanouts =
                Inr (dropout m s (merged_rows m pg x))"
  proof
    assume z: "children_rows childSels = 0"
    then have "nrm = []" using nrm la by simp
    then show "propagate_round m s x parentSel childSels fanouts =
                Inr (dropout m s (merged_rows m pg x))" using run out by simp
  qed
  have c3: "(\<forall>i<children_rows childSels. fanouts ! i = of_nat (child_count childSels i)) \<longrightarrow>
              (\<forall>i<children_rows childSels. fanouts ! i \<noteq> 0)"
  proof (intro impI allI)
    fix i
    assume cnt: "\<forall>i<children_rows childSels. fanouts ! i = of_nat (child_count childSels i)"
      and i: "i < children_rows childSels"
    have "0 < child_count childSels i" using i by (rule child_count_pos)
    then have "(of_nat (child_count childSels i) :: 'a) \<noteq> 0" by simp
    then show "fanouts ! i \<noteq> 0" using cnt i by simp
  qed
  have c4: "\<forall>i. 0 < child_count childSels i \<longleftrightarrow> i < children_rows childSels"
    using child_count_iff[OF srt] by blast
  have c5: "layers_keep_shape m \<and> has_shape x (length x) (propagated_info_len m) \<and>
            hook \<noteq> None \<longrightarrow>
              (\<exists>out. forward m s x parentSel childSels fanouts tensorBoardHook hook = Inr out)"
  proof
    assume h: "layers_keep_shape m \<and> has_shape x (length x) (propagated_info_len m) \<and>
            hook \<noteq> None"
    then have lk: "layers_keep_shape m"
      and sh: "has_shape x (length x) (propagated_info_len m)" and hk: "hook \<noteq> None"
      by simp_all
    show "\<exists>out. forward m s x parentSel childSels fanouts tensorBoardHook hook = Inr out"
      using forward_ok_iff[OF lk sh, of s parentSel childSels fanouts tensorBoardHook hook]
        hk ra by simp
  qed
  from pg acc la lfa c1 c2 c3 c4 c5
  have "index_select x parentSel = Inr pg \<and>
           accumulate_children (transformChildrenInfo m) x childSels [] = Inr acc \<and>
           length acc = children_rows childSels \<and>
           length fanouts = length acc \<and>
           (children_rows childSels \<noteq> 0 \<longrightarrow>
              propagate_round m s x parentSel childSels fanouts =
                Inr (dropout m s
                  (map2 (overlayChildrenInfo m)
                     (map2 (\<lambda>row d. map (\<lambda>v. v / d) row) acc fanouts)
                     (take (children_rows childSels) (merged_rows m pg x))
                   @ drop (children_rows childSels) (merged_rows m pg x))) \<and>
              (\<forall>i<children_rows childSels.
                 map2 (\<lambda>row d. map (\<lambda>v. v / d) row) acc fanouts ! i =
                   map (\<lambda>v. v / fanouts ! i) (acc ! i))) \<and>
           (children_rows childSels = 0 \<longrightarrow>
              propagate_round m s x parentSel childSels fanouts =
                Inr (dropout m s (merged_rows m pg x))) \<and>
           ((\<forall>i<children_rows childSels. fanouts ! i = of_nat (child_count childSels i)) \<longrightarrow>
              (\<forall>i<children_rows childSels. fanouts ! i \<noteq> 0)) \<and>
           (\<forall>i. 0 < child_count childSels i \<longleftrightarrow> i < children_rows childSels) \<and>
           (layers_keep_shape m \<and> has_shape x (length x) (propagated_info_len m) \<and>
            hook \<noteq> None \<longrightarrow>
              (\<exists>out. forward m s x parentSel childSels fanouts tensorBoardHook hook = Inr out))"
    by (intro conjI) assumption+
  then show ?thesis by (intro exI)
qed

theorem fanout_normalisation_witness:
  "well_formed_batch (length small_nodes) small_parents small_children (length small_fanouts) \<and>
   children_rows small_children = 2 \<and>
   small_fanouts = map (\<lambda>i. real (child_count small_children i)) [0, 1] \<and>
   accumulate_children (transformChildrenInfo small_layers) small_nodes small_children []
     = Inr [[7], [5]] \<and>
   propagate_round small_layers 0 small_nodes small_parents small_children small_fanouts
     = Inr ([[- (1 / 2)], [- 1], [5], [8]], 1) \<and>
   (\<exists>parentRows.
      index_select small_nodes small_parents = Inr parentRows \<and>
      propagate_round small_layers 0 small_nodes small_parents small_children small_fanouts =
        Inr (dropout small_layers 0
          (map2 (overlayChildrenInfo small_layers)
             (map2 (\<lambda>row d. map (\<lambda>v. v / d) row) [[7], [5]] small_fanouts)
             (take 2 (merged_rows small_layers parentRows small_nodes))
           @ drop 2 (merged_rows small_layers parentRows small_nodes)))) \<and>
   small_fanouts ! 0 \<noteq> 0 \<and> small_fanouts ! 1 \<noteq> 0 \<and>
   (\<exists>out. forward small_layers 0 small_nodes small_parents small_children small_fanouts ()
            (Some no_hook) = Inr out)"
proof -
  have ln: "length small_nodes = 4" by (simp add: small_nodes_def)
  have wf: "well_formed_batch (length small_nodes) small_parents small_children
              (length small_fanouts)"
    using small_well_formed ln by simp
  have cr: "children_rows small_children = 2"
    by (simp add: children_rows_def small_children_def)
  have cnt: "small_fanouts = map (\<lambda>i. real (child_count small_children i)) [0, 1]"
    by (simp add: small_fanouts_def child_count_def small_children_def)
  have cnt': "\<forall>i<children_rows small_children.
                small_fanouts ! i = of_nat (child_count small_children i)"
  proof (intro allI impI)
    fix i assume "i < children_rows small_children"
    then have "i = 0 \<or> i = 1" using cr by auto
    then show "small_fanouts ! i = of_nat (child_count small_children i)"
      by (auto simp: small_fanouts_def child_count_def small_children_def)
  qed
  have a: "accumulate_children (transformChildrenInfo small_layers) small_nodes small_children []
     = Inr [[7], [5]]"
    by (simp add: index_select_def in_range_def tensor_add_def zero_pad_rows_def
          small_layers_def small_nodes_def small_children_def Let_def)
  have run: "propagate_round small_layers 0 small_nodes small_parents small_children small_fanouts
     = Inr ([[- (1 / 2)], [- 1], [5], [8]], 1)"
    by (simp add: propagate_round_def index_select_def in_range_def gru_cell_def div_fanout_def
          tensor_add_def zero_pad_rows_def small_layers_def small_nodes_def small_parents_def
          small_children_def small_fanouts_def Let_def)
  have sh: "has_shape small_nodes (length small_nodes) (propagated_info_len small_layers)"
    using small_nodes_shape ln by simp
  from fanout_normalisation[OF wf, of small_layers 0 "Some no_hook" "()"]
  obtain pg acc where
    pg: "index_select small_nodes small_parents = Inr pg" and
    acc: "accumulate_children (transformChildrenInfo small_layers) small_nodes small_children []
            = Inr acc" and
    c1: "children_rows small_children \<noteq> 0 \<longrightarrow>
              propagate_round small_layers 0 small_nodes small_parents small_children small_fanouts =
                Inr (dropout small_layers 0
                  (map2 (overlayChildrenInfo small_layers)
                     (map2 (\<lambda>row d. map (\<lambda>v. v / d) row) acc small_fanouts)
                     (take (children_rows small_children) (merged_rows small_layers pg small_nodes))
                   @ drop (children_rows small_children) (merged_rows small_layers pg small_nodes))) \<and>
              (\<forall>i<children_rows small_children.
                 map2 (\<lambda>row d. map (\<lambda>v. v / d) row) acc small_fanouts ! i =
                   map (\<lambda>v. v / small_fanouts ! i) (acc ! i))" and
    c3: "(\<forall>i<children_rows small_children.
             small_fanouts ! i = of_nat (child_count small_children i)) \<longrightarrow>
              (\<forall>i<children_rows small_children. small_fanouts ! i \<noteq> 0)" and
    c5: "layers_keep_shape small_layers \<and>
           has_shape small_nodes (length small_nodes) (propagated_info_len small_layers) \<and>
            Some no_hook \<noteq> None \<longrightarrow>
              (\<exists>out. forward small_layers 0 small_nodes small_parents small_children small_fanouts ()
                 (Some no_hook) = Inr out)"
    by blast
  have acc7: "acc = [[7], [5]]" using acc a by simp
  have r: "propagate_round small_layers 0 small_nodes small_parents small_children small_fanouts =
        Inr (dropout small_layers 0
          (map2 (overlayChildrenInfo small_layers)
             (map2 (\<lambda>row d. map (\<lambda>v. v / d) row) [[7], [5]] small_fanouts)
             (take 2 (merged_rows small_layers pg small_nodes))
           @ drop 2 (merged_rows small_layers pg small_nodes)))"
    using c1 cr acc7 by simp
  have ex: "\<exists>parentRows.
      index_select small_nodes small_parents = Inr parentRows \<and>
      propagate_round small_layers 0 small_nodes small_parents small_children small_fanouts =
        Inr (dropout small_layers 0
          (map2 (overlayChildrenInfo small_layers)
             (map2 (\<lambda>row d. map (\<lambda>v. v / d) row) [[7], [5]] small_fanouts)
             (take 2 (merged_rows small_layers parentRows small_nodes))
           @ drop 2 (merged_rows small_layers parentRows small_nodes)))"
    using pg r by (intro exI conjI)
  have "\<forall>i<children_rows small_children. small_fanouts ! i \<noteq> 0" using c3 cnt' by simp
  then have nz0: "small_fanouts ! 0 \<noteq> 0" and nz1: "small_fanouts ! 1 \<noteq> 0"
    using cr by simp_all
  have fw: "\<exists>out. forward small_layers 0 small_nodes small_parents small_children small_fanouts ()
            (Some no_hook) = Inr out"
    using c5 small_layers_keep_shape sh by simp
  from wf cr cnt a run ex nz0 nz1 fw show ?thesis by (intro conjI) assumption+
qed

text \<open>
  C5 as stated fails: for a chain of three nodes and the per-node child counts in
  decreasing order, which are as many as the nodes, the two accumulated rows do not
  broadcast against three factors, and forward raises \<^verbatim>\<open>RuntimeError\<close> at the division.
\<close>

theorem per_node_fanouts_break_division:
  "chain_fanouts = map (\<lambda>i. real (child_count chain_children i)) [0, 1, 2] \<and>
   length chain_fanouts = length chain_nodes \<and>
   sorted (rev chain_fanouts) \<and>
   forward small_layers 0 chain_nodes chain_parents chain_children chain_fanouts ()
     (Some no_hook) = Inl RuntimeError"
  by (simp add: forward_def prepare_input_def propagate_round_def index_select_def in_range_def
        gru_cell_def div_fanout_def child_count_def small_layers_def chain_nodes_def
        chain_parents_def chain_children_def chain_fanouts_def Let_def numeral_2_eq_2)

subsection \<open>Selectors that do not fit the tensor\<close>










subsection \<open>Input dropout and normalisation, once per call\<close>

lemma propagate_round_logged:
  "propagate_round (logged m) (s, calls) x psel csels ff =
     map_sum id (\<lambda>(y, s'). (y, (s', calls @ [OutputDropoutCall])))
       (propagate_round m s x psel csels ff)"
  by (simp add: propagate_round_def logged_def Let_def split: sum.splits prod.splits)

lemma propagation_loop_logged:
  "propagation_loop (logged m) k (s, calls) x psel csels ff =
     map_sum id (\<lambda>(y, s'). (y, (s', calls @ replicate k OutputDropoutCall)))
       (propagation_loop m k s x psel csels ff)"
proof (induction k arbitrary: s calls x)
  case 0 then show ?case by simp
next
  case (Suc k)
  show ?case
  proof (cases "propagate_round m s x psel csels ff")
    case (Inl e)
    then show ?thesis by (simp add: propagate_round_logged)
  next
    case (Inr out)
    obtain y s1 where o: "out = (y, s1)" by (cases out)
    show ?thesis using Inr o Suc.IH[of s1 "calls @ [OutputDropoutCall]" y]
      by (simp add: propagate_round_logged replicate_app_Cons_same)
  qed
qed

lemma prepare_input_logged:
  "prepare_input (logged m) (s, calls) x =
     (case prepare_input m s x of
        (y, s') \<Rightarrow>
          (y, (s', calls @ InputDropoutCall #
                 (if \<not> disable_batch_norm m \<and> 1 < length (fst (input_dropout m s x))
                  then [BatchNormCall] else []))))"
  by (simp add: prepare_input_def logged_def split: prod.splits)

lemma logged_depth:
  "node_info_propagator_stack_depth (logged m) = node_info_propagator_stack_depth m"
  by (simp add: logged_def)

lemma forward_logged:
  "forward (logged m) (s, []) x psel csels ff tb hook =
     map_sum id
       (\<lambda>(y, s'). (y, (s', calls_of_forward m (length (fst (input_dropout m s x))))))
       (forward m s x psel csels ff tb hook)"
proof (cases hook)
  case None
  then show ?thesis by (simp add: forward_def)
next
  case (Some h)
  obtain y s1 where p: "prepare_input m s x = (y, s1)" by (cases "prepare_input m s x")
  show ?thesis
    using Some p
    by (simp add: forward_Some prepare_input_logged propagation_loop_logged logged_depth
          calls_of_forward_def)
qed

text \<open>
  C7. Let the input dropout return as many rows as it is given. Then the steps before the
  loop are the input dropout followed, when batch normalisation is not disabled and the
  input has more than one row, by the batch normalisation of the output of the dropout,
  and by nothing otherwise: the layers called before the loop are the input dropout, once,
  and then the batch normalisation, once, under that condition only. Whenever forward
  returns, the calls of the stateful layers over the whole call are these, followed by
  one output dropout per round, so neither the input dropout nor the normalisation is
  called in a round. Recording the calls does not change what forward returns or raises.
\<close>

theorem forward_layer_calls:
  assumes rows: "length (fst (input_dropout m s x)) = length x"
  shows "prepare_input m s x =
           (if \<not> disable_batch_norm m \<and> 1 < length x
            then batchNormPropagatedInfo m (snd (input_dropout m s x)) (fst (input_dropout m s x))
            else input_dropout m s x) \<and>
         snd (snd (prepare_input (logged m) (s, []) x)) =
           InputDropoutCall #
           (if \<not> disable_batch_norm m \<and> 1 < length x then [BatchNormCall] else []) \<and>
         (\<forall>y s' calls.
            forward (logged m) (s, []) x parentSel childSels fanouts tensorBoardHook hook
              = Inr (y, (s', calls)) \<longrightarrow>
            forward m s x parentSel childSels fanouts tensorBoardHook hook = Inr (y, s') \<and>
            calls = calls_of_forward m (length x)) \<and>
         (\<forall>y s'.
            forward m s x parentSel childSels fanouts tensorBoardHook hook = Inr (y, s') \<longrightarrow>
            forward (logged m) (s, []) x parentSel childSels fanouts tensorBoardHook hook
              = Inr (y, (s', calls_of_forward m (length x)))) \<and>
         (\<forall>e. forward (logged m) (s, []) x parentSel childSels fanouts tensorBoardHook hook = Inl e
                 \<longleftrightarrow> forward m s x parentSel childSels fanouts tensorBoardHook hook = Inl e)"
proof -
  have p: "prepare_input m s x =
           (if \<not> disable_batch_norm m \<and> 1 < length x
            then batchNormPropagatedInfo m (snd (input_dropout m s x)) (fst (input_dropout m s x))
            else input_dropout m s x)"
  proof -
    obtain x1 s1 where i: "input_dropout m s x = (x1, s1)" by (cases "input_dropout m s x")
    then have "length x1 = length x" using rows by simp
    then show ?thesis using i by (simp add: prepare_input_def)
  qed
  have l: "snd (snd (prepare_input (logged m) (s, []) x)) =
           InputDropoutCall #
           (if \<not> disable_batch_norm m \<and> 1 < length x then [BatchNormCall] else [])"
  proof -
    obtain y s1 where i: "prepare_input m s x = (y, s1)" by (cases "prepare_input m s x")
    then show ?thesis using rows by (simp add: prepare_input_logged)
  qed
  note f = forward_logged[of m s x parentSel childSels fanouts tensorBoardHook hook]
  have a: "\<forall>y s' calls.
            forward (logged m) (s, []) x parentSel childSels fanouts tensorBoardHook hook
              = Inr (y, (s', calls)) \<longrightarrow>
            forward m s x parentSel childSels fanouts tensorBoardHook hook = Inr (y, s') \<and>
            calls = calls_of_forward m (length x)"
  proof (intro allI impI)
    fix y s' calls
    assume r: "forward (logged m) (s, []) x parentSel childSels fanouts tensorBoardHook hook
              = Inr (y, (s', calls))"
    show "forward m s x parentSel childSels fanouts tensorBoardHook hook = Inr (y, s') \<and>
            calls = calls_of_forward m (length x)"
    proof (cases "forward m s x parentSel childSels fanouts tensorBoardHook hook")
      case (Inl e)
      then show ?thesis using f r by simp
    next
      case (Inr out)
      obtain y0 s0 where o: "out = (y0, s0)" by (cases out)
      show ?thesis using f r Inr o rows by simp
    qed
  qed
  have b: "\<forall>y s'.
            forward m s x parentSel childSels fanouts tensorBoardHook hook = Inr (y, s') \<longrightarrow>
            forward (logged m) (s, []) x parentSel childSels fanouts tensorBoardHook hook
              = Inr (y, (s', calls_of_forward m (length x)))"
    using f rows by simp
  have c: "\<forall>e. forward (logged m) (s, []) x parentSel childSels fanouts tensorBoardHook hook = Inl e
                 \<longleftrightarrow> forward m s x parentSel childSels fanouts tensorBoardHook hook = Inl e"
  proof (intro allI)
    fix e
    show "forward (logged m) (s, []) x parentSel childSels fanouts tensorBoardHook hook = Inl e
                 \<longleftrightarrow> forward m s x parentSel childSels fanouts tensorBoardHook hook = Inl e"
      using f by (cases "forward m s x parentSel childSels fanouts tensorBoardHook hook") auto
  qed
  from p l a b c show ?thesis by (intro conjI) assumption+
qed

theorem forward_layer_calls_witness:
  "length (fst (input_dropout normalising_layers 0 small_nodes)) = length small_nodes \<and>
   forward normalising_layers 0 small_nodes small_parents small_children small_fanouts ()
     (Some no_hook) = Inr ([[- (23 / 2)], [- 17], [- 10], [- 8]], 4) \<and>
   forward (logged normalising_layers) (0, []) small_nodes small_parents small_children
     small_fanouts () (Some no_hook)
     = Inr ([[- (23 / 2)], [- 17], [- 10], [- 8]],
            (4, [InputDropoutCall, BatchNormCall, OutputDropoutCall, OutputDropoutCall])) \<and>
   length (fst (input_dropout small_layers 0 small_nodes)) = length small_nodes \<and>
   forward small_layers 0 small_nodes small_parents small_children small_fanouts ()
     (Some no_hook) = Inr ([[- (9 / 2)], [- 11], [4], [6]], 3) \<and>
   forward (logged small_layers) (0, []) small_nodes small_parents small_children
     small_fanouts () (Some no_hook)
     = Inr ([[- (9 / 2)], [- 11], [4], [6]],
            (3, [InputDropoutCall, OutputDropoutCall, OutputDropoutCall])) \<and>
   length (fst (input_dropout normalising_layers 0 single_node)) = length single_node \<and>
   snd (snd (prepare_input (logged normalising_layers) (0, []) single_node))
     = [InputDropoutCall]"
proof -
  have r1: "length (fst (input_dropout normalising_layers 0 small_nodes)) = length small_nodes"
    and r2: "length (fst (input_dropout small_layers 0 small_nodes)) = length small_nodes"
    and r3: "length (fst (input_dropout normalising_layers 0 single_node)) = length single_node"
    by (simp_all add: normalising_layers_def small_layers_def)
  have f1: "forward normalising_layers 0 small_nodes small_parents small_children small_fanouts ()
     (Some no_hook) = Inr ([[- (23 / 2)], [- 17], [- 10], [- 8]], 4)"
    by (simp add: forward_def prepare_input_def propagate_round_def index_select_def in_range_def
          gru_cell_def div_fanout_def tensor_add_def zero_pad_rows_def normalising_layers_def
          small_layers_def small_nodes_def small_parents_def small_children_def
          small_fanouts_def Let_def numeral_2_eq_2)
  have f2: "forward small_layers 0 small_nodes small_parents small_children small_fanouts ()
     (Some no_hook) = Inr ([[- (9 / 2)], [- 11], [4], [6]], 3)"
    by (simp add: forward_def prepare_input_def propagate_round_def index_select_def in_range_def
          gru_cell_def div_fanout_def tensor_add_def zero_pad_rows_def
          small_layers_def small_nodes_def small_parents_def small_children_def
          small_fanouts_def Let_def numeral_2_eq_2)
  have c1: "calls_of_forward normalising_layers (length small_nodes)
              = [InputDropoutCall, BatchNormCall, OutputDropoutCall, OutputDropoutCall]"
    and c2: "calls_of_forward small_layers (length small_nodes)
              = [InputDropoutCall, OutputDropoutCall, OutputDropoutCall]"
    by (simp_all add: calls_of_forward_def normalising_layers_def small_layers_def
          small_nodes_def numeral_2_eq_2)
  note t1 = forward_layer_calls[OF r1, of small_parents small_children small_fanouts "()"
      "Some no_hook"]
  note t2 = forward_layer_calls[OF r2, of small_parents small_children small_fanouts "()"
      "Some no_hook"]
  note t3 = forward_layer_calls[OF r3, of small_parents small_children small_fanouts "()"
      "Some no_hook"]
  note b1 = t1[THEN conjunct2, THEN conjunct2, THEN conjunct2, THEN conjunct1, rule_format]
  note b2 = t2[THEN conjunct2, THEN conjunct2, THEN conjunct2, THEN conjunct1, rule_format]
  have g1: "forward (logged normalising_layers) (0, []) small_nodes small_parents small_children
     small_fanouts () (Some no_hook)
     = Inr ([[- (23 / 2)], [- 17], [- 10], [- 8]],
            (4, [InputDropoutCall, BatchNormCall, OutputDropoutCall, OutputDropoutCall]))"
    using b1[OF f1] c1 by simp
  have g2: "forward (logged small_layers) (0, []) small_nodes small_parents small_children
     small_fanouts () (Some no_hook)
     = Inr ([[- (9 / 2)], [- 11], [4], [6]],
            (3, [InputDropoutCall, OutputDropoutCall, OutputDropoutCall]))"
    using b2[OF f2] c2 by simp
  have g3: "snd (snd (prepare_input (logged normalising_layers) (0, []) single_node))
     = [InputDropoutCall]"
  proof -
    have "snd (snd (prepare_input (logged normalising_layers) (0, []) single_node)) =
           InputDropoutCall #
           (if \<not> disable_batch_norm normalising_layers \<and> 1 < length single_node
            then [BatchNormCall] else [])"
      by (rule t3[THEN conjunct2, THEN conjunct1])
    then show ?thesis by (simp add: single_node_def)
  qed
  from r1 f1 g1 r2 f2 g2 r3 g3 show ?thesis by (intro conjI) assumption+
qed

subsection \<open>The debug hook\<close>

text \<open>
  C10. Calling forward with the default \<^verbatim>\<open>dataDebugHook=None\<close> raises on entry,
  for every input and whatever the layers and the library state are: the hook is called
  at line 112, before dropout, normalisation and the first round.
\<close>

theorem forward_without_hook_raises:
  "forward m s x parentSel childSels fanouts tensorBoardHook None = Inl TypeError"
  by (simp add: forward_def)

end
